theory Spec2Isabelle
  imports Complex_Main
begin

section \<open>Python values: exceptions, dictionaries, loops\<close>

text \<open>
  The terrain engine of \<^verbatim>\<open>tixel.py\<close> raises no exception of its own; the
  ones that can escape are the built-in lookups. They are values of the model:
  a fallible operation returns \<open>py_error + 'a\<close>, with \<open>Inl\<close> the exception.
\<close>

datatype py_error = KeyError | IndexError | ValueError

definition and_then :: "py_error + 'a \<Rightarrow> ('a \<Rightarrow> py_error + 'b) \<Rightarrow> py_error + 'b" where
  "and_then m f = (case m of Inl e \<Rightarrow> Inl e | Inr x \<Rightarrow> f x)"

text \<open>
  A Python \<^verbatim>\<open>dict\<close> keeps its keys in insertion order, and the code iterates
  over \<^verbatim>\<open>items()\<close>: an association list with one entry per key, in
  insertion order. \<open>dict_set\<close> is \<^verbatim>\<open>d[k] = v\<close>, \<open>dict_get\<close> is
  \<^verbatim>\<open>d[k]\<close>.
\<close>

type_synonym ('k, 'v) dict = "('k \<times> 'v) list"

fun dict_set :: "('k, 'v) dict \<Rightarrow> 'k \<Rightarrow> 'v \<Rightarrow> ('k, 'v) dict" where
  "dict_set [] k v = [(k, v)]"
| "dict_set ((k', v') # d) k v =
     (if k' = k then (k, v) # d else (k', v') # dict_set d k v)"

definition dict_get :: "('k, 'v) dict \<Rightarrow> 'k \<Rightarrow> py_error + 'v" where
  "dict_get d k = (case map_of d k of None \<Rightarrow> Inl KeyError | Some v \<Rightarrow> Inr v)"

definition list_get :: "'a list \<Rightarrow> nat \<Rightarrow> py_error + 'a" where
  "list_get xs n = (if n < length xs then Inr (xs ! n) else Inl IndexError)"

text \<open>
  \<^verbatim>\<open>for x in xs: body\<close> over a list the body does not change; the first
  exception ends the loop. \<open>py_range n\<close> is \<^verbatim>\<open>range(n)\<close>, empty for
  \<open>n \<le> 0\<close>.
\<close>

fun for_each :: "'a list \<Rightarrow> ('a \<Rightarrow> 's \<Rightarrow> py_error + 's) \<Rightarrow> 's \<Rightarrow> py_error + 's" where
  "for_each [] body s = Inr s"
| "for_each (x # xs) body s =
     (case body x s of Inl e \<Rightarrow> Inl e | Inr s' \<Rightarrow> for_each xs body s')"

definition py_range :: "int \<Rightarrow> nat list" where
  "py_range n = [0..<nat n]"

section \<open>Two-dimensional numpy arrays\<close>

text \<open>
  An array is its shape and its cells. Reading or writing a cell outside the
  shape raises IndexError. Every index the code computes is non-negative
  (loop counters, and \<open>i - 1\<close> only where \<open>i \<noteq> 0\<close>), so numpy's wrap-around
  of negative indices never applies and indices are naturals.
\<close>

record 'a ndarray =
  shape :: "nat \<times> nat"
  item :: "nat \<times> nat \<Rightarrow> 'a"

definition in_bounds :: "'a ndarray \<Rightarrow> nat \<times> nat \<Rightarrow> bool" where
  "in_bounds a p = (fst p < fst (shape a) \<and> snd p < snd (shape a))"

definition getitem :: "'a ndarray \<Rightarrow> nat \<times> nat \<Rightarrow> py_error + 'a" where
  "getitem a p = (if in_bounds a p then Inr (item a p) else Inl IndexError)"

definition setitem :: "'a ndarray \<Rightarrow> nat \<times> nat \<Rightarrow> 'a \<Rightarrow> py_error + 'a ndarray" where
  "setitem a p v =
     (if in_bounds a p then Inr (a\<lparr>item := (item a)(p := v)\<rparr>) else Inl IndexError)"

definition np_full :: "nat \<times> nat \<Rightarrow> 'a \<Rightarrow> 'a ndarray" where
  "np_full sh v = \<lparr>shape = sh, item = (\<lambda>_. v)\<rparr>"

definition np_zeros :: "nat \<times> nat \<Rightarrow> real ndarray" where
  "np_zeros sh = np_full sh 0"

text \<open>
  \<^verbatim>\<open>np.empty(shape, dtype=object)\<close> holds \<^verbatim>\<open>None\<close> in every cell until
  written; each loop that follows it writes every cell before any is read, so
  the placeholder is never observed. A negative dimension raises ValueError.
\<close>

definition py_None :: string where
  "py_None = ''None''"

definition np_empty :: "int \<times> int \<Rightarrow> py_error + string ndarray" where
  "np_empty sh =
     (if fst sh < 0 \<or> snd sh < 0 then Inl ValueError
      else Inr (np_full (nat (fst sh), nat (snd sh)) py_None))"

definition trunc :: "real \<Rightarrow> real" where
  "trunc x = (if 0 \<le> x then of_int \<lfloor>x\<rfloor> else of_int \<lceil>x\<rceil>)"

definition np_trunc :: "real ndarray \<Rightarrow> real ndarray" where
  "np_trunc a = a\<lparr>item := (\<lambda>p. trunc (item a p))\<rparr>"

definition cells :: "'a ndarray \<Rightarrow> (nat \<times> nat) list" where
  "cells a = List.product [0..<fst (shape a)] [0..<snd (shape a)]"

text \<open>\<^verbatim>\<open>np.max\<close> raises ValueError on an array with no cell.\<close>

definition np_max :: "real ndarray \<Rightarrow> py_error + real" where
  "np_max a =
     (case map (item a) (cells a) of
        [] \<Rightarrow> Inl ValueError
      | v # vs \<Rightarrow> Inr (fold max vs v))"

section \<open>Probability table\<close>

text \<open>
  Weights, draws and cumulative sums are Python floats. A float is a real
  number and floats are compared exactly, but \<^verbatim>\<open>accum_probability += value\<close>
  rounds its result to a float: \<^verbatim>\<open>0.06 + 0.47 + 0.06\<close> is
  \<^verbatim>\<open>0.5900000000000001\<close>. The addition of floats is therefore the
  parameter \<open>fadd\<close> of \<open>accumulate_probabilities\<close>, and each property
  states what it needs of it. It agrees with \<open>(+)\<close> wherever the exact sum
  is a float, as it is for the dyadic weights of the examples.
\<close>

definition accumulate_probabilities ::
  "(real \<Rightarrow> real \<Rightarrow> real) \<Rightarrow> (string, real) dict \<Rightarrow> (string, real) dict" where
  "accumulate_probabilities fadd probabilities =
     snd (fold (\<lambda>(key, value) (accum_probability, cumulative_probabilities).
                  (fadd accum_probability value,
                   dict_set cumulative_probabilities key (fadd accum_probability value)))
            probabilities (0, []))"

text \<open>\<open>None\<close> is Python's implicit \<^verbatim>\<open>return None\<close> after the loop.\<close>

fun assign_tile :: "real \<Rightarrow> (string, real) dict \<Rightarrow> string option" where
  "assign_tile number [] = None"
| "assign_tile number ((key, value) # accum_probabilities) =
     (if number < value then Some key else assign_tile number accum_probabilities)"

text \<open>
  The fallback scan of \<^verbatim>\<open>generate_base_layer\<close> (lines 215--218): the
  candidate starts as the literal \<^verbatim>\<open>"1"\<close> and both weights are looked up in
  the mapping at every step.
\<close>

definition most_probable :: "(string, real) dict \<Rightarrow> py_error + string" where
  "most_probable tile_probabilities =
     for_each tile_probabilities
       (\<lambda>(key, value) most_probable_tile_type.
          and_then (dict_get tile_probabilities key) (\<lambda>a.
          and_then (dict_get tile_probabilities most_probable_tile_type) (\<lambda>b.
            Inr (if a > b then key else most_probable_tile_type))))
       ''1''"

definition base_cell :: "(string, real) dict \<Rightarrow> (string, real) dict \<Rightarrow> real \<Rightarrow> py_error + string" where
  "base_cell tile_probabilities accumulated_probabilities number =
     (case assign_tile number accumulated_probabilities of
        Some key \<Rightarrow> Inr key
      | None \<Rightarrow> most_probable tile_probabilities)"

section \<open>Tiles and the terrain\<close>

text \<open>
  A \<^verbatim>\<open>Tile\<close> object, without its pygame surfaces (image, mask, rect and the
  scaled copies), which only drawing reads. \<open>tile_elevation\<close> is the
  attribute \<^verbatim>\<open>Tile.elevation\<close>.
\<close>

record tile =
  tile_type :: string
  image_path :: string
  width :: int
  height :: int
  thickness :: int
  coordinates :: "real \<times> real"
  index :: "nat \<times> nat"
  tile_elevation :: int
  selected_tile :: bool

definition new_tile :: "string \<Rightarrow> string \<Rightarrow> int \<Rightarrow> int \<Rightarrow> int \<Rightarrow> tile" where
  "new_tile tt path w h th =
     \<lparr>tile_type = tt, image_path = path, width = w, height = h, thickness = th,
      coordinates = (0, 0), index = (0, 0), tile_elevation = 1, selected_tile = False\<rparr>"

text \<open>
  \<^verbatim>\<open>Terrain\<close>. Tile objects live in \<open>heap\<close>, and the lists \<open>tiles\<close> and
  \<open>selected_tiles\<close> hold references to them, since membership and removal
  compare tiles by identity (\<^verbatim>\<open>Tile\<close> defines no \<^verbatim>\<open>__eq__\<close>).
  \<open>next_ref\<close> is the next unused reference. The zoom factor and the panning
  offset are left out: only drawing reads them.
\<close>

record terrain_state =
  terrain_width :: int
  terrain_height :: int
  tile_width :: int
  tile_height :: int
  tile_thickness :: int
  elevation_symbol :: "string option"
  elevation :: int
  elevation_iterations :: int
  tiles :: "nat list"
  selected_tiles :: "nat list"
  pointed_tile :: "nat option"
  base_layer :: "string ndarray"
  heightmap :: "real ndarray option"
  terrain :: "string ndarray list"
  heap :: "nat \<Rightarrow> tile"
  next_ref :: nat

text \<open>
  The constructor. \<^verbatim>\<open>np.full\<close> raises ValueError for a negative side, so a
  terrain cannot be constructed with one; a side becomes negative only later,
  through \<^verbatim>\<open>update_terrain_info\<close>.
\<close>

definition init_terrain :: "int \<Rightarrow> int \<Rightarrow> int \<Rightarrow> int \<Rightarrow> int \<Rightarrow> py_error + terrain_state" where
  "init_terrain tw th w h t =
     (if tw < 0 \<or> th < 0 then Inl ValueError
      else Inr
        \<lparr>terrain_width = tw, terrain_height = th, tile_width = w, tile_height = h,
         tile_thickness = t, elevation_symbol = None, elevation = 1,
         elevation_iterations = 1, tiles = [], selected_tiles = [], pointed_tile = None,
         base_layer = np_full (nat tw, nat th) ''0'', heightmap = None, terrain = [],
         heap = (\<lambda>_. new_tile [] [] 0 0 0), next_ref = 0\<rparr>)"

definition cart_to_iso :: "real \<Rightarrow> real \<Rightarrow> real \<times> real" where
  "cart_to_iso x y = (x - y, (x + y) / 2)"

text \<open>
  The body of the innermost loop of \<^verbatim>\<open>generate_tiles\<close>, for layer \<open>i\<close> and
  cell \<open>(j, k)\<close>: \<open>make_tile\<close> is the new \<^verbatim>\<open>Tile\<close> with its elevation,
  index and isometric coordinates set, \<open>place_tile\<close> reads the cell and appends
  the tile.
\<close>

definition make_tile :: "terrain_state \<Rightarrow> string \<Rightarrow> string \<Rightarrow> nat \<Rightarrow> int \<Rightarrow> nat \<Rightarrow> nat \<Rightarrow> tile" where
  "make_tile s tt path i elevation_offset j k =
     (let t = new_tile tt path (tile_width s) (tile_height s) (tile_thickness s);
          cart_x = real j * real_of_int (width t) / 2;
          cart_y = real k * real_of_int (height t);
          iso = cart_to_iso cart_x cart_y
      in t\<lparr>tile_elevation := int i + 1, index := (j, k),
            coordinates := (fst iso, snd iso - real_of_int elevation_offset)\<rparr>)"

definition place_tile ::
  "(string, string) dict \<Rightarrow> nat \<Rightarrow> int \<Rightarrow> nat \<Rightarrow> nat \<Rightarrow> terrain_state \<Rightarrow> py_error + terrain_state" where
  "place_tile tile_images i elevation_offset j k s =
     and_then (list_get (terrain s) i) (\<lambda>layer.
     and_then (getitem layer (j, k)) (\<lambda>tt.
       if tt = ''0'' then Inr s
       else and_then (dict_get tile_images tt) (\<lambda>path.
         Inr (s\<lparr>heap := (heap s)(next_ref s := make_tile s tt path i elevation_offset j k),
                next_ref := Suc (next_ref s),
                tiles := tiles s @ [next_ref s]\<rparr>))))"

definition generate_tiles :: "terrain_state \<Rightarrow> (string, string) dict \<Rightarrow> py_error + terrain_state" where
  "generate_tiles s tile_images =
     and_then
       (for_each [0..<length (terrain s)]
          (\<lambda>i (st, elevation_offset).
             and_then
               (for_each (py_range (terrain_width st))
                  (\<lambda>j. for_each (py_range (terrain_height st))
                     (\<lambda>k. place_tile tile_images i elevation_offset j k)) st)
               (\<lambda>st'. Inr (st', elevation_offset + tile_thickness st')))
          (s\<lparr>tiles := [], selected_tiles := []\<rparr>, 0))
       (\<lambda>(st, _). Inr st)"

section \<open>Base layer generation\<close>

text \<open>
  \<open>rand\<close> is the outcome of \<^verbatim>\<open>np.random.rand\<close>: one draw per cell, and
  \<open>fadd\<close> is the addition of floats. The
  caller passes \<^verbatim>\<open>(terrain_height, terrain_width)\<close> and \<open>generate_seed\<close>
  swaps them back.
\<close>

definition generate_seed :: "(nat \<times> nat \<Rightarrow> real) \<Rightarrow> int \<Rightarrow> int \<Rightarrow> real ndarray" where
  "generate_seed rand w h = \<lparr>shape = (nat h, nat w), item = rand\<rparr>"

definition generate_base_layer ::
  "terrain_state \<Rightarrow> (string, real) dict \<Rightarrow> (string, string) dict \<Rightarrow> (real \<Rightarrow> real \<Rightarrow> real)
     \<Rightarrow> (nat \<times> nat \<Rightarrow> real) \<Rightarrow> py_error + terrain_state" where
  "generate_base_layer s tile_probabilities tile_images fadd rand =
     (if terrain_height s < 0 \<or> terrain_width s < 0 then Inr s
      else
        let seed = generate_seed rand (terrain_height s) (terrain_width s);
            accumulated_probabilities = accumulate_probabilities fadd tile_probabilities
        in and_then (np_empty (terrain_width s, terrain_height s)) (\<lambda>empty.
           and_then
             (for_each (py_range (terrain_width s))
                (\<lambda>i. for_each (py_range (terrain_height s))
                   (\<lambda>j layer.
                      and_then (getitem seed (i, j)) (\<lambda>number.
                      and_then (base_cell tile_probabilities accumulated_probabilities number)
                        (\<lambda>tt. setitem layer (i, j) tt)))) empty)
             (\<lambda>layer. generate_tiles (s\<lparr>base_layer := layer, terrain := [layer]\<rparr>) tile_images)))"

section \<open>Neighbour query and smoothing\<close>

text \<open>
  \<^verbatim>\<open>_get_neighbor_tiles\<close> names the first dimension of the array
  \<^verbatim>\<open>height\<close> (here \<open>h\<close>) and the second \<^verbatim>\<open>width\<close> (here \<open>w\<close>); the
  comparisons with \<open>h - 1\<close> and \<open>w - 1\<close> are over Python integers. Names
  of parameters that are also attributes of \<^verbatim>\<open>Terrain\<close> or \<^verbatim>\<open>Tile\<close>
  (\<^verbatim>\<open>terrain\<close>, \<^verbatim>\<open>heightmap\<close>, \<^verbatim>\<open>elevation\<close>, \<^verbatim>\<open>tiles\<close>) are
  shortened, since the attributes are constants of the model. \<open>neighbor_positions\<close> is the list of
  cells the function reads, in the order it reads them; a position outside the
  array raises IndexError when it is read.
\<close>

definition neighbor_positions :: "nat \<times> nat \<Rightarrow> nat \<times> nat \<Rightarrow> (nat \<times> nat) list" where
  "neighbor_positions sh position =
     (let h = fst sh; w = snd sh; i = fst position; j = snd position in
      if i = 0 then
        (if j = 0 then [(i, j + 1), (i + 1, j), (i + 1, j + 1)]
         else if int j = int w - 1 then [(i, j - 1), (i + 1, j), (i + 1, j - 1)]
         else [(i, j - 1), (i + 1, j), (i + 1, j - 1), (i + 1, j + 1), (i, j + 1)])
      else if int i = int h - 1 then
        (if j = 0 then [(i, j + 1), (i - 1, j), (i - 1, j + 1)]
         else if int j = int w - 1 then [(i, j - 1), (i - 1, j), (i - 1, j - 1)]
         else [(i, j - 1), (i - 1, j), (i - 1, j - 1), (i - 1, j + 1), (i, j + 1)])
      else if j = 0 then
        [(i - 1, j), (i - 1, j + 1), (i, j + 1), (i + 1, j + 1), (i + 1, j)]
      else if int j = int w - 1 then
        [(i - 1, j), (i - 1, j - 1), (i, j - 1), (i + 1, j - 1), (i + 1, j)]
      else
        [(i, j - 1), (i + 1, j - 1), (i + 1, j), (i + 1, j + 1),
         (i, j + 1), (i - 1, j + 1), (i - 1, j), (i - 1, j - 1)])"

fun get_all :: "'a ndarray \<Rightarrow> (nat \<times> nat) list \<Rightarrow> py_error + 'a list" where
  "get_all a [] = Inr []"
| "get_all a (p # ps) =
     and_then (getitem a p) (\<lambda>v. and_then (get_all a ps) (\<lambda>vs. Inr (v # vs)))"

definition get_neighbor_tiles :: "'a ndarray \<Rightarrow> nat \<times> nat \<Rightarrow> py_error + 'a list" where
  "get_neighbor_tiles grid position = get_all grid (neighbor_positions (shape grid) position)"

text \<open>
  \<open>shuffle\<close> is the outcome of \<^verbatim>\<open>random.shuffle\<close> on the list of
  coordinates.
\<close>

definition generate_unchecked_tiles ::
  "((nat \<times> nat) list \<Rightarrow> (nat \<times> nat) list) \<Rightarrow> 'a ndarray \<Rightarrow> (nat \<times> nat) list" where
  "generate_unchecked_tiles shuffle grid =
     shuffle (List.product [0..<fst (shape grid)] [0..<snd (shape grid)])"

text \<open>
  \<^verbatim>\<open>_set_to_neighbor_type\<close>. \<open>coins\<close> is the stream of values
  \<^verbatim>\<open>random.random()\<close> returns and \<open>n\<close> the number of values already
  drawn; the function returns the chosen type with the new count.
\<close>

definition count_neighbors :: "string list \<Rightarrow> string list \<Rightarrow> py_error + (string, nat) dict" where
  "count_neighbors neighbors tile_list =
     for_each neighbors
       (\<lambda>neighbor tile_count.
          and_then (dict_get tile_count neighbor) (\<lambda>c. Inr (dict_set tile_count neighbor (c + 1))))
       (fold (\<lambda>tt tile_count. dict_set tile_count tt 0) tile_list [])"

definition vote_step ::
  "(nat \<Rightarrow> real) \<Rightarrow> (string, nat) dict \<Rightarrow> string \<Rightarrow> string \<times> nat \<Rightarrow> py_error + string \<times> nat" where
  "vote_step coins tile_count tile st =
     (case st of (most_frequent, n) \<Rightarrow>
        and_then (dict_get tile_count tile) (\<lambda>a.
        and_then (dict_get tile_count most_frequent) (\<lambda>b.
          if a > b then Inr (tile, n)
          else if a = b then Inr (if coins n > 1 / 2 then tile else most_frequent, Suc n)
          else Inr (most_frequent, n))))"

definition set_to_neighbor_type ::
  "(nat \<Rightarrow> real) \<Rightarrow> nat \<Rightarrow> string list \<Rightarrow> string list \<Rightarrow> py_error + string \<times> nat" where
  "set_to_neighbor_type coins n neighbors tile_list =
     and_then (count_neighbors neighbors tile_list) (\<lambda>tile_count.
     and_then (list_get (map fst tile_count) 0) (\<lambda>first.
       for_each (map fst tile_count) (vote_step coins tile_count) (first, n)))"

definition smooth_cell ::
  "(nat \<Rightarrow> real) \<Rightarrow> string list \<Rightarrow> nat \<times> nat \<Rightarrow> string ndarray \<times> nat
     \<Rightarrow> py_error + string ndarray \<times> nat" where
  "smooth_cell coins tile_types position st =
     (case st of (layer, n) \<Rightarrow>
        and_then (get_neighbor_tiles layer position) (\<lambda>neighbors.
        and_then (set_to_neighbor_type coins n neighbors tile_types) (\<lambda>(tt, n').
        and_then (setitem layer position tt) (\<lambda>layer'. Inr (layer', n')))))"

definition smooth_pass ::
  "((nat \<times> nat) list \<Rightarrow> (nat \<times> nat) list) \<Rightarrow> (nat \<Rightarrow> real) \<Rightarrow> string list \<Rightarrow> string ndarray
     \<Rightarrow> py_error + string ndarray \<times> nat" where
  "smooth_pass shuffle coins tile_types layer =
     for_each (generate_unchecked_tiles shuffle layer) (smooth_cell coins tile_types) (layer, 0)"

definition smooth_base_layer ::
  "terrain_state \<Rightarrow> string list \<Rightarrow> (string, string) dict
     \<Rightarrow> ((nat \<times> nat) list \<Rightarrow> (nat \<times> nat) list) \<Rightarrow> (nat \<Rightarrow> real) \<Rightarrow> py_error + terrain_state" where
  "smooth_base_layer s tile_types tile_images shuffle coins =
     (if tiles s = [] then Inr s
      else if terrain_width s = 1 \<or> terrain_height s = 1 then Inr s
      else and_then (smooth_pass shuffle coins tile_types (base_layer s)) (\<lambda>(layer, _).
             generate_tiles (s\<lparr>base_layer := layer, terrain := [layer]\<rparr>) tile_images))"

section \<open>Heightmap and elevation layers\<close>

text \<open>
  Heights are Python floats, modelled as real numbers: the mean of
  \<^verbatim>\<open>_generate_heightmap\<close> is exact. \<open>py_int\<close> is \<^verbatim>\<open>int(x)\<close> on a float,
  which truncates towards zero.
\<close>

definition py_int :: "real \<Rightarrow> int" where
  "py_int x = (if 0 \<le> x then \<lfloor>x\<rfloor> else \<lceil>x\<rceil>)"

definition seed_cell :: "string ndarray \<Rightarrow> string \<Rightarrow> int \<Rightarrow> nat \<Rightarrow> nat \<Rightarrow> real ndarray \<Rightarrow> py_error + real ndarray" where
  "seed_cell grid symbol elev i j hmap =
     and_then (getitem grid (i, j)) (\<lambda>tt.
       if tt = symbol then setitem hmap (i, j) (real_of_int elev)
       else Inr hmap)"

definition diffuse_cell :: "nat \<Rightarrow> nat \<Rightarrow> real ndarray \<Rightarrow> py_error + real ndarray" where
  "diffuse_cell i j hmap =
     and_then (getitem hmap (i, j)) (\<lambda>v.
       if v = 0 then Inr hmap
       else and_then (get_neighbor_tiles hmap (i, j)) (\<lambda>neighbors.
              let values = neighbors @ [v]
              in setitem hmap (i, j) (sum_list values / real (length values))))"

definition generate_heightmap :: "string ndarray \<Rightarrow> string \<Rightarrow> int \<Rightarrow> int \<Rightarrow> py_error + real ndarray" where
  "generate_heightmap grid symbol elev iterations =
     (let w = fst (shape grid); h = snd (shape grid) in
      and_then
        (for_each [0..<w] (\<lambda>i. for_each [0..<h]
           (\<lambda>j. seed_cell grid symbol elev i j)) (np_zeros (w, h)))
        (\<lambda>seeded.
           and_then
             (for_each (py_range iterations)
                (\<lambda>_. for_each [0..<w] (\<lambda>i. for_each [0..<h] (\<lambda>j. diffuse_cell i j)))
                seeded)
             (\<lambda>hmap. Inr (np_trunc hmap))))"

text \<open>
  The loop \<^verbatim>\<open>for tile in self.tiles: ... self.tiles.remove(tile)\<close> of
  \<^verbatim>\<open>generate_elevation\<close> removes from the list it iterates over: Python's list
  iterator keeps a position \<open>n\<close> and stops when \<open>n\<close> reaches the current
  length. \<^verbatim>\<open>remove\<close> takes out the first occurrence, which exists here.
\<close>

function prune_elevated :: "(nat \<Rightarrow> tile) \<Rightarrow> nat list \<Rightarrow> nat \<Rightarrow> nat list" where
  "prune_elevated h ts n =
     (if n < length ts then
        (if tile_elevation (h (ts ! n)) > 1 then prune_elevated h (remove1 (ts ! n) ts) (Suc n)
         else prune_elevated h ts (Suc n))
      else ts)"
  by pat_completeness auto
termination
  by (relation "measure (\<lambda>(h, ts, n). length ts - n)") (auto simp: length_remove1)

text \<open>The body of the loop that builds elevation layer \<open>i\<close>.\<close>

definition elevation_layer ::
  "real ndarray \<Rightarrow> string \<Rightarrow> nat \<Rightarrow> terrain_state \<Rightarrow> py_error + terrain_state" where
  "elevation_layer hm symbol i s =
     and_then (np_empty (terrain_width s, terrain_height s)) (\<lambda>empty.
     and_then
       (for_each (py_range (terrain_width s)) (\<lambda>j. for_each (py_range (terrain_height s))
          (\<lambda>k layer.
             and_then (getitem hm (j, k)) (\<lambda>v.
               setitem layer (j, k) (if v > real i then symbol else ''0'')))) empty)
       (\<lambda>layer. Inr (s\<lparr>terrain := terrain s @ [layer]\<rparr>)))"

definition generate_elevation :: "terrain_state \<Rightarrow> (string, string) dict \<Rightarrow> py_error + terrain_state" where
  "generate_elevation s tile_images =
     (if tiles s = [] then Inr s
      else case elevation_symbol s of
        None \<Rightarrow> Inr s
      | Some symbol \<Rightarrow>
          if terrain_width s = 1 \<or> terrain_height s = 1 then Inr s
          else if elevation s \<le> 0 \<or> elevation_iterations s < 0 then Inr s
          else
            let s1 = s\<lparr>tiles := prune_elevated (heap s) (tiles s) 0\<rparr> in
            and_then (list_get (terrain s1) 0) (\<lambda>base.
            let s2 = s1\<lparr>terrain := [base]\<rparr> in
            and_then (generate_heightmap (base_layer s2) symbol (elevation s2)
                        (elevation_iterations s2)) (\<lambda>hm.
            and_then (np_max hm) (\<lambda>m.
            let s3 = s2\<lparr>heightmap := Some hm, elevation := py_int m\<rparr> in
            and_then (for_each (py_range (elevation s3)) (elevation_layer hm symbol) s3)
              (\<lambda>s4. generate_tiles s4 tile_images)))))"

section \<open>Configuration, pointing, selection and deletion\<close>

definition update_terrain_info ::
  "terrain_state \<Rightarrow> int \<Rightarrow> int \<Rightarrow> int \<Rightarrow> int \<Rightarrow> int \<Rightarrow> int \<Rightarrow> int \<Rightarrow> terrain_state" where
  "update_terrain_info s tw th w h t e it =
     s\<lparr>terrain_width := tw, terrain_height := th, tile_width := w, tile_height := h,
       tile_thickness := t, elevation := e, elevation_iterations := it\<rparr>"

text \<open>
  \<open>hovering\<close> is the outcome of \<^verbatim>\<open>Tile.is_hovering(mouse_pos)\<close> for each tile,
  a hit test on pygame's masks.
\<close>

definition update_pointed_tile :: "terrain_state \<Rightarrow> (nat \<Rightarrow> bool) \<Rightarrow> terrain_state" where
  "update_pointed_tile s hovering =
     s\<lparr>pointed_tile :=
         fst (fold (\<lambda>t (pointed, n).
                     if hovering t then
                       (let m = (int (fst (index (heap s t))) + int (snd (index (heap s t))))
                                  * tile_elevation (heap s t)
                        in if m > n then (Some t, m) else (pointed, n))
                     else (pointed, n))
                (tiles s) (None, - 1))\<rparr>"

definition set_selected :: "bool \<Rightarrow> nat \<Rightarrow> (nat \<Rightarrow> tile) \<Rightarrow> (nat \<Rightarrow> tile)" where
  "set_selected b t h = h(t := (h t)\<lparr>selected_tile := b\<rparr>)"

definition update_selected_tiles :: "terrain_state \<Rightarrow> bool \<Rightarrow> bool \<Rightarrow> terrain_state" where
  "update_selected_tiles s control_pressed left_mouse_pressed =
     (if tiles s \<noteq> [] then
        (case pointed_tile s of
           Some t \<Rightarrow>
             if left_mouse_pressed then
               (if control_pressed then
                  (if t \<in> set (selected_tiles s)
                   then s\<lparr>heap := set_selected False t (heap s),
                          selected_tiles := remove1 t (selected_tiles s)\<rparr>
                   else s)
                else s\<lparr>heap := set_selected True t (heap s),
                       selected_tiles := selected_tiles s @ [t]\<rparr>)
             else s
         | None \<Rightarrow>
             if left_mouse_pressed \<and> control_pressed
             then s\<lparr>heap := fold (set_selected False) (selected_tiles s) (heap s),
                    selected_tiles := []\<rparr>
             else s)
      else s)"

datatype key = K_DELETE | K_LCTRL | K_OTHER

datatype event = KEYDOWN key | KEYUP key | MOUSEBUTTONDOWN nat | MOUSEBUTTONUP nat

text \<open>
  \<^verbatim>\<open>delete_tiles\<close>: both loops remove from the list they iterate over, so
  both are iterations by position, as in \<open>prune_elevated\<close>.
  \<open>remove_matching\<close> is the inner loop over \<^verbatim>\<open>self.tiles\<close>,
  \<open>delete_one\<close> the body of the outer loop for an elevated tile and
  \<open>delete_selected\<close> the outer loop over \<^verbatim>\<open>self.selected_tiles\<close>.
\<close>

function remove_matching :: "(nat \<Rightarrow> tile) \<Rightarrow> nat \<Rightarrow> nat list \<Rightarrow> nat \<Rightarrow> nat list" where
  "remove_matching h t ts n =
     (if n < length ts then
        (if index (h t) = index (h (ts ! n)) \<and> tile_elevation (h t) = tile_elevation (h (ts ! n))
         then remove_matching h t (remove1 (ts ! n) ts) (Suc n)
         else remove_matching h t ts (Suc n))
      else ts)"
  by pat_completeness auto
termination
  by (relation "measure (\<lambda>(h, t, ts, n). length ts - n)") (auto simp: length_remove1)

definition delete_one :: "terrain_state \<Rightarrow> nat \<Rightarrow> py_error + terrain_state" where
  "delete_one s t =
     (let s1 = s\<lparr>tiles := remove_matching (heap s) t (tiles s) 0\<rparr>;
          l = nat (tile_elevation (heap s1 t) - 1)
      in and_then (list_get (terrain s1) l) (\<lambda>layer.
         and_then (setitem layer (index (heap s1 t)) ''0'') (\<lambda>layer'.
           Inr (s1\<lparr>terrain := (terrain s1)[l := layer'],
                    selected_tiles := remove1 t (selected_tiles s1)\<rparr>))))"

function delete_selected :: "terrain_state \<Rightarrow> nat \<Rightarrow> py_error + terrain_state" where
  "delete_selected s n =
     (if n < length (selected_tiles s) then
        (if tile_elevation (heap s (selected_tiles s ! n)) > 1 then
           (case delete_one s (selected_tiles s ! n) of
              Inl e \<Rightarrow> Inl e
            | Inr s' \<Rightarrow> delete_selected s' (Suc n))
         else delete_selected s (Suc n))
      else Inr s)"
  by pat_completeness auto
termination
proof (relation "measure (\<lambda>(s, n). length (selected_tiles s) - n)")
  show "wf (measure (\<lambda>(s, n). length (selected_tiles s) - n))" by simp
next
  fix s :: terrain_state and n s'
  assume n: "n < length (selected_tiles s)"
    and d: "delete_one s (selected_tiles s ! n) = Inr s'"
  from d have "selected_tiles s' = remove1 (selected_tiles s ! n) (selected_tiles s)"
    by (auto simp: delete_one_def Let_def and_then_def split: sum.splits)
  with n show "((s', Suc n), (s, n)) \<in> measure (\<lambda>(s, n). length (selected_tiles s) - n)"
    by (simp add: length_remove1)
next
  fix s :: terrain_state and n
  assume "n < length (selected_tiles s)"
  then show "((s, Suc n), (s, n)) \<in> measure (\<lambda>(s, n). length (selected_tiles s) - n)"
    by simp
qed

definition delete_tiles :: "terrain_state \<Rightarrow> event \<Rightarrow> py_error + terrain_state" where
  "delete_tiles s ev = (if ev = KEYDOWN K_DELETE then delete_selected s 0 else Inr s)"

section \<open>Notions used to state the properties\<close>

text \<open>
  The words of the specification: the weight of a key in a mapping, and the
  first key in iteration order whose weight is the highest of the mapping.
\<close>

definition weight :: "(string, real) dict \<Rightarrow> string \<Rightarrow> real" where
  "weight d k = (case map_of d k of None \<Rightarrow> 0 | Some v \<Rightarrow> v)"

definition first_maximum :: "(string, real) dict \<Rightarrow> string option" where
  "first_maximum d = map_option fst (find (\<lambda>(k, v). \<forall>(k', v') \<in> set d. v' \<le> v) d)"

text \<open>
  The last cumulative boundary: the running sum of \<^verbatim>\<open>_accumulate_probabilities\<close>
  after the last key, computed with the same additions. A draw at or past it
  is below no boundary. \<open>never_decreases fadd\<close> says that adding a
  non-negative float never gives less than the first argument, which holds for
  float addition since rounding is monotone and the first argument is a float.
\<close>

definition last_boundary :: "(real \<Rightarrow> real \<Rightarrow> real) \<Rightarrow> (string, real) dict \<Rightarrow> real" where
  "last_boundary fadd probs = fold (\<lambda>(key, value) accum_probability. fadd accum_probability value) probs 0"

definition never_decreases :: "(real \<Rightarrow> real \<Rightarrow> real) \<Rightarrow> bool" where
  "never_decreases fadd = (\<forall>a b. 0 \<le> b \<longrightarrow> a \<le> fadd a b)"

text \<open>One step of the fallback scan, as a pure function of the candidate.\<close>

definition scan_step :: "(string, real) dict \<Rightarrow> string \<times> real \<Rightarrow> string \<Rightarrow> string" where
  "scan_step d kv most = (if weight d most < snd kv then fst kv else most)"

text \<open>
  \<open>constant_draws x\<close> is the seed in which every cell draws \<open>x\<close>, and
  \<open>cell_after r p\<close> reads cell \<open>p\<close> of the base layer an operation left.
\<close>

definition cell_after :: "py_error + terrain_state \<Rightarrow> nat \<times> nat \<Rightarrow> py_error + string" where
  "cell_after r p = and_then r (\<lambda>s. getitem (base_layer s) p)"

definition constant_draws :: "real \<Rightarrow> nat \<times> nat \<Rightarrow> real" where
  "constant_draws x p = x"

text \<open>
  A state with one base tile whose configured width was then set to 0, as
  \<^verbatim>\<open>main.py\<close> does on every frame from the input boxes.
\<close>

definition zero_width_example :: terrain_state where
  "zero_width_example =
     update_terrain_info
       (projr (generate_base_layer (projr (init_terrain 1 1 32 16 7)) [(''1'', 1)] [(''1'', ''a'')]
                 (+) (constant_draws (1 / 2))))
       0 1 32 16 7 1 1"

text \<open>
  The same state with the configured width set to -1 instead, as happens when
  \<^verbatim>\<open>-1\<close> is typed into the width box.
\<close>

definition negative_width_example :: terrain_state where
  "negative_width_example =
     update_terrain_info
       (projr (generate_base_layer (projr (init_terrain 1 1 32 16 7)) [(''1'', 1)] [(''1'', ''a'')]
                 (+) (constant_draws (1 / 2))))
       (- 1) 1 32 16 7 1 1"

text \<open>
  Scenarios, built with the operations themselves. \<open>hovering_only r\<close> is the
  hit test that only tile \<open>r\<close> passes, and \<open>layer_cell_after r l p\<close> reads
  cell \<open>p\<close> of layer \<open>l\<close> of the terrain an operation left.
  \<^item> \<open>one_tile_pointed\<close>: a 1 x 1 terrain whose only tile is pointed at;
  \<^item> \<open>base_2x3\<close>: a 2 x 3 base layer of \<^verbatim>\<open>"1"\<close>, the elevation marker set
    to \<^verbatim>\<open>"1"\<close> as \<^verbatim>\<open>main.py\<close> does;
  \<^item> \<open>elevated_2x2\<close>: a 2 x 2 base layer of \<^verbatim>\<open>"1"\<close> with one elevation
    layer on top (elevation 1, no iteration);
  \<^item> \<open>two_selected\<close>: the same, after two clicks that select the elevated
    tiles 8 and 9.
\<close>

definition hovering_only :: "nat \<Rightarrow> nat \<Rightarrow> bool" where
  "hovering_only r t = (t = r)"

definition layer_cell_after :: "py_error + terrain_state \<Rightarrow> nat \<Rightarrow> nat \<times> nat \<Rightarrow> py_error + string" where
  "layer_cell_after r l p = and_then r (\<lambda>s. and_then (list_get (terrain s) l) (\<lambda>g. getitem g p))"

definition one_tile_pointed :: terrain_state where
  "one_tile_pointed =
     update_pointed_tile
       (projr (generate_base_layer (projr (init_terrain 1 1 32 16 7)) [(''1'', 1)] [(''1'', ''a'')]
                 (+) (constant_draws (1 / 2))))
       (hovering_only 0)"

definition base_2x3 :: terrain_state where
  "base_2x3 =
     (projr (generate_base_layer (projr (init_terrain 2 3 32 16 7)) [(''1'', 1)] [(''1'', ''a'')]
               (+) (constant_draws (1 / 2))))\<lparr>elevation_symbol := Some ''1''\<rparr>"

definition elevated_2x2 :: terrain_state where
  "elevated_2x2 =
     projr (generate_elevation
       (update_terrain_info
          ((projr (generate_base_layer (projr (init_terrain 2 2 32 16 7)) [(''1'', 1)] [(''1'', ''a'')]
                     (+) (constant_draws (1 / 2))))\<lparr>elevation_symbol := Some ''1''\<rparr>)
          2 2 32 16 7 1 0)
       [(''1'', ''a'')])"

definition two_selected :: terrain_state where
  "two_selected =
     update_selected_tiles
       (update_pointed_tile
          (update_selected_tiles (update_pointed_tile elevated_2x2 (hovering_only 8)) False True)
          (hovering_only 9))
       False True"

text \<open>
  The invariant of the heightmap loops: the heightmap has the shape of the base
  layer and is zero wherever the base layer does not hold the marker. The grid
  \<open>marker_corner_grid\<close> is 2 x 2 with the marker \<^verbatim>\<open>"1"\<close> in one corner.
\<close>

definition off_marker_zero :: "string ndarray \<Rightarrow> string \<Rightarrow> real ndarray \<Rightarrow> bool" where
  "off_marker_zero grid symbol hm \<longleftrightarrow>
     shape hm = shape grid \<and> (\<forall>p. item hm p \<noteq> 0 \<longrightarrow> item grid p = symbol)"

definition marker_corner_grid :: "string ndarray" where
  "marker_corner_grid = \<lparr>shape = (2, 2), item = (\<lambda>_. ''2'')((0, 0) := ''1'')\<rparr>"

text \<open>
  What \<^verbatim>\<open>generate_tiles\<close> leaves of a state: everything but the tile
  objects and the (emptied) selection. \<open>drawable\<close> says that every cell the
  tile loops read exists and holds EMPTY or a type that has an image.
\<close>

definition rebuilt :: "terrain_state \<Rightarrow> terrain_state \<Rightarrow> bool" where
  "rebuilt s st \<longleftrightarrow> (\<exists>ts h n. st = s\<lparr>tiles := ts, selected_tiles := [], heap := h, next_ref := n\<rparr>)"

definition drawable :: "terrain_state \<Rightarrow> (string, string) dict \<Rightarrow> bool" where
  "drawable s im \<longleftrightarrow>
     (\<forall>layer \<in> set (terrain s). \<forall>j < nat (terrain_width s). \<forall>k < nat (terrain_height s).
        in_bounds layer (j, k) \<and> (item layer (j, k) = ''0'' \<or> item layer (j, k) \<in> fst ` set im))"

text \<open>The grid that base layer generation computes for a seed.\<close>

definition sampled_layer ::
  "terrain_state \<Rightarrow> (string, real) dict \<Rightarrow> (real \<Rightarrow> real \<Rightarrow> real) \<Rightarrow> (nat \<times> nat \<Rightarrow> real)
     \<Rightarrow> string ndarray" where
  "sampled_layer s probs fadd rand =
     \<lparr>shape = (nat (terrain_width s), nat (terrain_height s)),
      item = (\<lambda>p. if fst p < nat (terrain_width s) \<and> snd p < nat (terrain_height s)
                  then projr (base_cell probs (accumulate_probabilities fadd probs) (rand p))
                  else py_None)\<rparr>"



definition level_grid :: "terrain_state \<Rightarrow> real ndarray \<Rightarrow> string \<Rightarrow> nat \<Rightarrow> string ndarray \<Rightarrow> bool" where
  "level_grid s hm symbol i layer \<longleftrightarrow>
     shape layer = (nat (terrain_width s), nat (terrain_height s))
     \<and> (\<forall>j < nat (terrain_width s). \<forall>k < nat (terrain_height s).
          in_bounds hm (j, k)
          \<and> item layer (j, k) = (if item hm (j, k) > real i then symbol else ''0''))"





section \<open>Loops\<close>

lemma and_then_Inl [simp]: "and_then (Inl e) f = Inl e"
  by (simp add: and_then_def)

lemma and_then_Inr [simp]: "and_then (Inr x) f = f x"
  by (simp add: and_then_def)

lemma and_then_eq_Inr: "and_then m f = Inr y \<longleftrightarrow> (\<exists>x. m = Inr x \<and> f x = Inr y)"
  by (cases m) auto

lemma for_each_append:
  "for_each (xs @ ys) body s = and_then (for_each xs body s) (for_each ys body)"
  by (induction xs arbitrary: s) (auto split: sum.splits)

lemma for_each_cong_set:
  "(\<And>x s. x \<in> set xs \<Longrightarrow> body x s = body' x s) \<Longrightarrow> for_each xs body s = for_each xs body' s"
  by (induction xs arbitrary: s) (auto split: sum.splits)

lemma for_each_product:
  "for_each xs (\<lambda>i. for_each ys (body i)) s = for_each (List.product xs ys) (\<lambda>(i, j). body i j) s"
proof (induction xs arbitrary: s)
  case Nil
  then show ?case by simp
next
  case (Cons x xs)
  have inner: "for_each (map (Pair x) ys) (\<lambda>(i, j). body i j) t = for_each ys (body x) t" for t
    by (induction ys arbitrary: t) (auto split: sum.splits)
  show ?case
    by (simp add: for_each_append inner Cons.IH and_then_def split: sum.splits)
qed

lemma for_each_inv:
  assumes "for_each xs body s = Inr s'" and "I s"
    and "\<And>x t t'. x \<in> set xs \<Longrightarrow> I t \<Longrightarrow> body x t = Inr t' \<Longrightarrow> I t'"
  shows "I s'"
  using assms
proof (induction xs arbitrary: s)
  case Nil
  then show ?case by simp
next
  case (Cons x xs)
  from Cons.prems(1) obtain t where t: "body x s = Inr t" and rest: "for_each xs body t = Inr s'"
    by (auto split: sum.splits)
  have "I t" using Cons.prems(2,3) t by (meson list.set_intros(1))
  show ?case
  proof (rule Cons.IH [OF rest \<open>I t\<close>])
    fix y u u' assume "y \<in> set xs" "I u" "body y u = Inr u'"
    then show "I u'" using Cons.prems(3) [of y u u'] by simp
  qed
qed

lemma for_each_ok:
  assumes "I s"
    and "\<And>x t. x \<in> set xs \<Longrightarrow> I t \<Longrightarrow> \<exists>t'. body x t = Inr t' \<and> I t'"
  shows "\<exists>s'. for_each xs body s = Inr s' \<and> I s'"
  using assms
proof (induction xs arbitrary: s)
  case Nil
  then show ?case by simp
next
  case (Cons x xs)
  from Cons.prems obtain t where t: "body x s = Inr t" "I t" by fastforce
  from Cons.IH [OF t(2)] Cons.prems(2) obtain s' where "for_each xs body t = Inr s'" "I s'"
    by auto
  with t show ?case by simp
qed

section \<open>The fallback scan\<close>

lemma dict_get_member:
  "distinct (map fst d) \<Longrightarrow> (k, v) \<in> set d \<Longrightarrow> dict_get d k = Inr v"
  by (simp add: dict_get_def)

lemma weight_member:
  "distinct (map fst d) \<Longrightarrow> (k, v) \<in> set d \<Longrightarrow> weight d k = v"
  by (simp add: weight_def)

lemma scan_loop:
  assumes "distinct (map fst d)" and "set items \<subseteq> set d" and "most \<in> fst ` set d"
  shows "for_each items
           (\<lambda>(key, value) most.
              and_then (dict_get d key) (\<lambda>a.
              and_then (dict_get d most) (\<lambda>b. Inr (if a > b then key else most))))
           most
         = Inr (fold (scan_step d) items most)"
  using assms(2,3)
proof (induction items arbitrary: most)
  case Nil
  then show ?case by simp
next
  case (Cons kv items)
  obtain k v where kv: "kv = (k, v)" by (cases kv)
  from Cons.prems kv have k: "dict_get d k = Inr v" "weight d k = v"
    using assms(1) by (auto simp: dict_get_member weight_member)
  from Cons.prems(2) obtain w where w: "(most, w) \<in> set d" by auto
  then have m: "dict_get d most = Inr w" "weight d most = w"
    using assms(1) by (auto simp: dict_get_member weight_member)
  have next_in: "scan_step d kv most \<in> fst ` set d"
    using Cons.prems kv by (auto simp: scan_step_def intro: rev_image_eqI)
  have "for_each items
           (\<lambda>(key, value) most.
              and_then (dict_get d key) (\<lambda>a.
              and_then (dict_get d most) (\<lambda>b. Inr (if a > b then key else most))))
           (scan_step d kv most)
         = Inr (fold (scan_step d) items (scan_step d kv most))"
    using Cons.IH [OF _ next_in] Cons.prems(1) by simp
  moreover have "scan_step d (k, v) most = (if w < v then k else most)"
    by (simp add: scan_step_def m)
  ultimately show ?case
    by (simp add: kv k(1) m(1))
qed

lemma scan_result:
  assumes "\<And>k v. (k, v) \<in> set items \<Longrightarrow> weight d k = v"
  shows "(fold (scan_step d) items most = most \<and> (\<forall>(k, v) \<in> set items. v \<le> weight d most))
       \<or> (\<exists>pre post m. fold (scan_step d) items most = m
             \<and> items = pre @ (m, weight d m) # post
             \<and> (\<forall>(k, v) \<in> set pre. v < weight d m)
             \<and> (\<forall>(k, v) \<in> set post. v \<le> weight d m)
             \<and> weight d most < weight d m)"
  using assms
proof (induction items arbitrary: most)
  case Nil
  then show ?case by simp
next
  case (Cons kv items)
  obtain k v where kv: "kv = (k, v)" by (cases kv)
  have wk: "weight d k = v" using Cons.prems kv by simp
  have tl: "\<And>k v. (k, v) \<in> set items \<Longrightarrow> weight d k = v" using Cons.prems by simp
  let ?F = "\<lambda>m. fold (scan_step d) items m"
  show ?case
  proof (cases "weight d most < v")
    case True
    then have step: "scan_step d kv most = k" by (simp add: scan_step_def kv)
    from Cons.IH [OF tl, of k] show ?thesis
    proof
      assume a: "?F k = k \<and> (\<forall>(k', v') \<in> set items. v' \<le> weight d k)"
      have "fold (scan_step d) (kv # items) most = k" using a step by simp
      moreover have "kv # items = [] @ (k, weight d k) # items" by (simp add: kv wk)
      moreover have "\<forall>(k', v') \<in> set []. v' < weight d k" by simp
      moreover have "weight d most < weight d k" using True wk by simp
      ultimately show ?thesis using a by blast
    next
      assume "\<exists>pre post m. ?F k = m \<and> items = pre @ (m, weight d m) # post
             \<and> (\<forall>(k, v) \<in> set pre. v < weight d m)
             \<and> (\<forall>(k, v) \<in> set post. v \<le> weight d m)
             \<and> weight d k < weight d m"
      then obtain pre post m where b: "?F k = m" "items = pre @ (m, weight d m) # post"
        "\<forall>(k, v) \<in> set pre. v < weight d m" "\<forall>(k, v) \<in> set post. v \<le> weight d m"
        "weight d k < weight d m" by blast
      have "kv # items = (kv # pre) @ (m, weight d m) # post" using b(2) by simp
      moreover have "\<forall>(k, v) \<in> set (kv # pre). v < weight d m" using b(3,5) wk kv by simp
      moreover have "weight d most < weight d m" using True b(5) wk by simp
      moreover have "fold (scan_step d) (kv # items) most = m" using b(1) step by simp
      ultimately show ?thesis using b(4) by blast
    qed
  next
    case False
    then have step: "scan_step d kv most = most" by (simp add: scan_step_def kv)
    from Cons.IH [OF tl, of most] show ?thesis
    proof
      assume "?F most = most \<and> (\<forall>(k', v') \<in> set items. v' \<le> weight d most)"
      then show ?thesis using False step kv by simp
    next
      assume "\<exists>pre post m. ?F most = m \<and> items = pre @ (m, weight d m) # post
             \<and> (\<forall>(k, v) \<in> set pre. v < weight d m)
             \<and> (\<forall>(k, v) \<in> set post. v \<le> weight d m)
             \<and> weight d most < weight d m"
      then obtain pre post m where b: "?F most = m" "items = pre @ (m, weight d m) # post"
        "\<forall>(k, v) \<in> set pre. v < weight d m" "\<forall>(k, v) \<in> set post. v \<le> weight d m"
        "weight d most < weight d m" by blast
      have "kv # items = (kv # pre) @ (m, weight d m) # post" using b(2) by simp
      moreover have "\<forall>(k, v) \<in> set (kv # pre). v < weight d m" using b(3,5) False kv by simp
      moreover have "fold (scan_step d) (kv # items) most = m" using b(1) step by simp
      ultimately show ?thesis using b(4,5) by blast
    qed
  qed
qed

lemma find_first:
  "(\<forall>y \<in> set pre. \<not> P y) \<Longrightarrow> P x \<Longrightarrow> find P (pre @ x # post) = Some x"
  by (induction pre) auto

section \<open>Cumulative weights and array fills\<close>

lemma dict_get_ok: "k \<in> fst ` set d \<Longrightarrow> \<exists>v. dict_get d k = Inr v"
  by (cases "map_of d k") (auto simp: dict_get_def map_of_eq_None_iff)

lemma set_dict_set: "set (dict_set d k v) \<subseteq> insert (k, v) (set d)"
  by (induction d) (auto split: if_splits)

lemma keys_dict_set: "fst ` set (dict_set d k v) = insert k (fst ` set d)"
proof -
  have "map fst (dict_set d k v) = (if k \<in> set (map fst d) then map fst d else map fst d @ [k])"
    by (induction d) force+
  then have "set (map fst (dict_set d k v)) = insert k (set (map fst d))"
    by (auto split: if_splits)
  then show ?thesis by (simp only: set_map)
qed

lemma accumulate_fold_bound:
  assumes "never_decreases fadd"
    and "\<forall>(k, v) \<in> set items. 0 \<le> v" and "\<forall>(k, c) \<in> set cum. c \<le> acc"
  shows "\<forall>(k, c) \<in> set (snd (fold (\<lambda>(key, value) (a, cp). (fadd a value, dict_set cp key (fadd a value)))
            items (acc, cum))). c \<le> fold (\<lambda>(key, value) a. fadd a value) items acc"
  using assms(2,3)
proof (induction items arbitrary: acc cum)
  case Nil
  then show ?case by simp
next
  case (Cons kv items)
  obtain k v where kv: "kv = (k, v)" by (cases kv)
  have v: "0 \<le> v" using Cons.prems(1) kv by simp
  have up: "acc \<le> fadd acc v" using assms(1) v by (simp add: never_decreases_def)
  have "\<forall>(k', c) \<in> set (dict_set cum k (fadd acc v)). c \<le> fadd acc v"
  proof (clarify)
    fix k' c assume "(k', c) \<in> set (dict_set cum k (fadd acc v))"
    then have "(k', c) = (k, fadd acc v) \<or> (k', c) \<in> set cum"
      using set_dict_set [of cum k "fadd acc v"] by blast
    then show "c \<le> fadd acc v"
    proof
      assume "(k', c) = (k, fadd acc v)"
      then show ?thesis by simp
    next
      assume "(k', c) \<in> set cum"
      with Cons.prems(2) have "c \<le> acc" by blast
      with up show ?thesis by simp
    qed
  qed
  moreover have "\<forall>(k, v) \<in> set items. 0 \<le> v" using Cons.prems(1) by simp
  ultimately show ?case
    using Cons.IH [of "dict_set cum k (fadd acc v)" "fadd acc v"] by (simp add: kv)
qed

lemma accumulate_fold_keys:
  "fst ` set (snd (fold (\<lambda>(key, value) (a, cp). (fadd a value, dict_set cp key (fadd a value)))
            items (acc :: real, cum))) = fst ` set cum \<union> fst ` set items"
proof (induction items arbitrary: acc cum)
  case Nil
  then show ?case by simp
next
  case (Cons kv items)
  obtain k v where kv: "kv = (k, v)" by (cases kv)
  show ?case using Cons.IH [of "fadd acc v" "dict_set cum k (fadd acc v)"]
    by (simp add: kv keys_dict_set)
qed

lemma accumulate_fold_zero:
  assumes "fadd 0 0 = (0::real)"
    and "\<forall>(k, v) \<in> set items. v = 0" and "\<forall>(k, c) \<in> set cum. c = 0"
  shows "\<forall>(k, c) \<in> set (snd (fold (\<lambda>(key, value) (a, cp). (fadd a value, dict_set cp key (fadd a value)))
            items (0, cum))). c = 0"
  using assms(2,3)
proof (induction items arbitrary: cum)
  case Nil
  then show ?case by simp
next
  case (Cons kv items)
  obtain k v where kv: "kv = (k, v)" by (cases kv)
  have v: "v = 0" using Cons.prems(1) kv by simp
  have "\<forall>(k', c) \<in> set (dict_set cum k 0). c = 0"
  proof (clarify)
    fix k' c assume "(k', c) \<in> set (dict_set cum k 0)"
    then have "(k', c) = (k, 0) \<or> (k', c) \<in> set cum"
      using set_dict_set [of cum k 0] by blast
    then show "c = 0" using Cons.prems(2) by blast
  qed
  moreover have "\<forall>(k, v) \<in> set items. v = 0" using Cons.prems(1) by simp
  ultimately show ?case
    using Cons.IH [of "dict_set cum k 0"] by (simp add: kv v assms(1))
qed

lemma accumulate_bound:
  "never_decreases fadd \<Longrightarrow> \<forall>(k, v) \<in> set probs. 0 \<le> v \<Longrightarrow>
   \<forall>(k, c) \<in> set (accumulate_probabilities fadd probs). c \<le> last_boundary fadd probs"
  using accumulate_fold_bound [of fadd probs "[]" 0]
  by (simp add: accumulate_probabilities_def last_boundary_def)

lemma accumulate_zero:
  "fadd 0 0 = 0 \<Longrightarrow> \<forall>(k, v) \<in> set probs. v = 0 \<Longrightarrow>
   \<forall>(k, c) \<in> set (accumulate_probabilities fadd probs). c = 0"
  using accumulate_fold_zero [of fadd probs "[]"] by (simp add: accumulate_probabilities_def)

lemma accumulate_keys:
  "fst ` set (accumulate_probabilities fadd probs) = fst ` set probs"
  using accumulate_fold_keys [of fadd probs 0 "[]"] by (simp add: accumulate_probabilities_def)

lemma assign_tile_None:
  "assign_tile number acc = None \<longleftrightarrow> (\<forall>(k, c) \<in> set acc. \<not> number < c)"
  by (induction acc) (auto split: if_splits)

lemma assign_tile_Some:
  "assign_tile number acc = Some k \<Longrightarrow> k \<in> fst ` set acc"
  by (induction acc) (auto split: if_splits)

lemma fill_loop:
  assumes "\<forall>p \<in> set cs. in_bounds a p"
  shows "for_each cs (\<lambda>p b. setitem b p (f p)) a
         = Inr (a\<lparr>item := (\<lambda>p. if p \<in> set cs then f p else item a p)\<rparr>)"
  using assms
proof (induction cs arbitrary: a)
  case Nil
  then show ?case by simp
next
  case (Cons c cs)
  let ?b = "a\<lparr>item := (item a)(c := f c)\<rparr>"
  have "\<forall>p \<in> set cs. in_bounds ?b p" using Cons.prems by (simp add: in_bounds_def)
  from Cons.IH [OF this]
  have "for_each cs (\<lambda>p b. setitem b p (f p)) ?b
        = Inr (?b\<lparr>item := (\<lambda>p. if p \<in> set cs then f p else item ?b p)\<rparr>)" .
  moreover have "(\<lambda>p. if p \<in> set cs then f p else item ?b p)
               = (\<lambda>p. if p \<in> set (c # cs) then f p else item a p)"
    by (auto simp: fun_eq_iff)
  ultimately show ?case using Cons.prems by (simp add: setitem_def)
qed

lemma cells_in_bounds: "p \<in> set (cells a) \<longleftrightarrow> in_bounds a p"
  by (cases p) (auto simp: cells_def in_bounds_def)

section \<open>Tile generation keeps the grids\<close>

lemma rebuilt_fields:
  assumes "rebuilt s st"
  shows "terrain st = terrain s" "terrain_width st = terrain_width s"
    "terrain_height st = terrain_height s" "base_layer st = base_layer s"
    "heightmap st = heightmap s" "elevation st = elevation s" "selected_tiles st = []"
    "elevation_symbol st = elevation_symbol s"
  using assms by (auto simp: rebuilt_def)

lemma place_tile_cases:
  assumes "place_tile im i off j k st = Inr st'"
  shows "st' = st \<or> (\<exists>t. st' = st\<lparr>heap := (heap st)(next_ref st := t),
            next_ref := Suc (next_ref st), tiles := tiles st @ [next_ref st]\<rparr>)"
proof -
  from assms obtain layer where l: "list_get (terrain st) i = Inr layer"
    and r1: "and_then (getitem layer (j, k)) (\<lambda>tt.
       if tt = ''0'' then Inr st
       else and_then (dict_get im tt) (\<lambda>path.
         Inr (st\<lparr>heap := (heap st)(next_ref st := make_tile st tt path i off j k),
                next_ref := Suc (next_ref st),
                tiles := tiles st @ [next_ref st]\<rparr>))) = Inr st'"
    unfolding place_tile_def by (subst (asm) and_then_eq_Inr) blast
  from r1 obtain tt where r2: "(if tt = ''0'' then Inr st
       else and_then (dict_get im tt) (\<lambda>path.
         Inr (st\<lparr>heap := (heap st)(next_ref st := make_tile st tt path i off j k),
                next_ref := Suc (next_ref st),
                tiles := tiles st @ [next_ref st]\<rparr>))) = Inr st'"
    by (subst (asm) and_then_eq_Inr) blast
  show ?thesis
  proof (cases "tt = ''0''")
    case True
    with r2 show ?thesis by simp
  next
    case False
    with r2 have "and_then (dict_get im tt) (\<lambda>path.
         Inr (st\<lparr>heap := (heap st)(next_ref st := make_tile st tt path i off j k),
                next_ref := Suc (next_ref st),
                tiles := tiles st @ [next_ref st]\<rparr>)) = Inr st'" by simp
    then obtain path where "st' = st\<lparr>heap := (heap st)(next_ref st := make_tile st tt path i off j k),
                next_ref := Suc (next_ref st),
                tiles := tiles st @ [next_ref st]\<rparr>"
      by (subst (asm) and_then_eq_Inr) blast
    then show ?thesis by blast
  qed
qed

lemma place_tile_rebuilt:
  assumes "place_tile im i off j k st = Inr st'" and "rebuilt s st"
  shows "rebuilt s st'"
proof -
  from assms(2) obtain ts h n where st: "st = s\<lparr>tiles := ts, selected_tiles := [], heap := h, next_ref := n\<rparr>"
    unfolding rebuilt_def by blast
  from place_tile_cases [OF assms(1)] show ?thesis
  proof
    assume "st' = st"
    with assms(2) show ?thesis by simp
  next
    assume "\<exists>t. st' = st\<lparr>heap := (heap st)(next_ref st := t),
            next_ref := Suc (next_ref st), tiles := tiles st @ [next_ref st]\<rparr>"
    then obtain t where "st' = st\<lparr>heap := (heap st)(next_ref st := t),
            next_ref := Suc (next_ref st), tiles := tiles st @ [next_ref st]\<rparr>" by blast
    then have "st' = s\<lparr>tiles := ts @ [n], selected_tiles := [], heap := h(n := t), next_ref := Suc n\<rparr>"
      by (simp add: st)
    then show ?thesis unfolding rebuilt_def by blast
  qed
qed

lemma list_get_ok: "i < length xs \<Longrightarrow> list_get xs i = Inr (xs ! i)"
  by (simp add: list_get_def)

lemma getitem_ok: "in_bounds a p \<Longrightarrow> getitem a p = Inr (item a p)"
  by (simp add: getitem_def)

lemma place_tile_ok:
  assumes "i < length (terrain st)" and "in_bounds (terrain st ! i) (j, k)"
    and "item (terrain st ! i) (j, k) = ''0'' \<or> item (terrain st ! i) (j, k) \<in> fst ` set im"
  shows "\<exists>st'. place_tile im i off j k st = Inr st'"
proof (cases "item (terrain st ! i) (j, k) = ''0''")
  case True
  have "place_tile im i off j k st = Inr st"
    unfolding place_tile_def by (simp add: list_get_ok [OF assms(1)] getitem_ok [OF assms(2)] True)
  then show ?thesis by (rule exI)
next
  case False
  with assms(3) have "item (terrain st ! i) (j, k) \<in> fst ` set im" by simp
  from dict_get_ok [OF this] obtain path where p: "dict_get im (item (terrain st ! i) (j, k)) = Inr path" ..
  have "place_tile im i off j k st =
     Inr (st\<lparr>heap := (heap st)(next_ref st := make_tile st (item (terrain st ! i) (j, k)) path i off j k),
                next_ref := Suc (next_ref st),
                tiles := tiles st @ [next_ref st]\<rparr>)"
    unfolding place_tile_def by (simp add: list_get_ok [OF assms(1)] getitem_ok [OF assms(2)] False p)
  then show ?thesis by (rule exI)
qed

lemma generate_tiles_rebuilt:
  assumes "generate_tiles s im = Inr s'"
  shows "rebuilt s s'"
proof -
  let ?s0 = "s\<lparr>tiles := [], selected_tiles := []\<rparr>"
  let ?outer = "\<lambda>i (st, elevation_offset).
             and_then
               (for_each (py_range (terrain_width st))
                  (\<lambda>j. for_each (py_range (terrain_height st))
                     (\<lambda>k. place_tile im i elevation_offset j k)) st)
               (\<lambda>st'. Inr (st', elevation_offset + tile_thickness st'))"
  from assms obtain off where run: "for_each [0..<length (terrain s)] ?outer (?s0, 0) = Inr (s', off)"
    unfolding generate_tiles_def by (subst (asm) and_then_eq_Inr) (auto split: prod.splits)
  have start: "rebuilt s ?s0" unfolding rebuilt_def
    by (rule exI [of _ "[]"], rule exI [of _ "heap s"], rule exI [of _ "next_ref s"]) simp
  have step: "rebuilt s (fst t')" if "rebuilt s (fst t)" and "?outer i t = Inr t'"
    for i and t t' :: "terrain_state \<times> int"
  proof -
    obtain st off where t: "t = (st, off)" by (cases t)
    from that(2) obtain st' where inner: "for_each (py_range (terrain_width st))
                  (\<lambda>j. for_each (py_range (terrain_height st))
                     (\<lambda>k. place_tile im i off j k)) st = Inr st'" and t': "t' = (st', off + tile_thickness st')"
      unfolding t by (simp add: and_then_eq_Inr) blast
    have "rebuilt s st'"
    proof (rule for_each_inv [OF inner, where I = "rebuilt s"])
      show "rebuilt s st" using that(1) t by simp
    next
      fix j u u'
      assume u: "rebuilt s u" and row: "for_each (py_range (terrain_height st)) (\<lambda>k. place_tile im i off j k) u = Inr u'"
      show "rebuilt s u'"
      proof (rule for_each_inv [OF row, where I = "rebuilt s"])
        show "rebuilt s u" by (rule u)
      next
        fix k v v' assume "rebuilt s v" and "place_tile im i off j k v = Inr v'"
        then show "rebuilt s v'" using place_tile_rebuilt by blast
      qed
    qed
    then show ?thesis by (simp add: t')
  qed
  have "rebuilt s (fst (s', off))"
  proof (rule for_each_inv [OF run, where I = "\<lambda>t. rebuilt s (fst t)"])
    show "rebuilt s (fst (?s0, 0::int))" using start by simp
  next
    fix i t t' assume "rebuilt s (fst t)" and "?outer i t = Inr t'"
    then show "rebuilt s (fst t')" by (rule step)
  qed
  then show ?thesis by simp
qed

lemma generate_tiles_ok:
  assumes "drawable s im"
  shows "\<exists>s'. generate_tiles s im = Inr s'"
proof -
  let ?s0 = "s\<lparr>tiles := [], selected_tiles := []\<rparr>"
  let ?outer = "\<lambda>i (st, elevation_offset).
             and_then
               (for_each (py_range (terrain_width st))
                  (\<lambda>j. for_each (py_range (terrain_height st))
                     (\<lambda>k. place_tile im i elevation_offset j k)) st)
               (\<lambda>st'. Inr (st', elevation_offset + tile_thickness st'))"
  have start: "rebuilt s ?s0" unfolding rebuilt_def
    by (rule exI [of _ "[]"], rule exI [of _ "heap s"], rule exI [of _ "next_ref s"]) simp
  have cell: "\<exists>u'. place_tile im i off j k u = Inr u' \<and> rebuilt s u'"
    if "rebuilt s u" "i < length (terrain s)" "j < nat (terrain_width s)" "k < nat (terrain_height s)"
    for i off j k u
  proof -
    have f: "terrain u = terrain s" using that(1) by (rule rebuilt_fields)
    have "terrain s ! i \<in> set (terrain s)" using that(2) by simp
    with assms that(3,4) have "in_bounds (terrain s ! i) (j, k) \<and>
      (item (terrain s ! i) (j, k) = ''0'' \<or> item (terrain s ! i) (j, k) \<in> fst ` set im)"
      unfolding drawable_def by simp
    then have "\<exists>u'. place_tile im i off j k u = Inr u'"
      using place_tile_ok [of i u j k im off] that(2) by (simp add: f)
    then obtain u' where u': "place_tile im i off j k u = Inr u'" ..
    from place_tile_rebuilt [OF u' that(1)] u' show ?thesis by simp
  qed
  have step: "\<exists>t'. ?outer i t = Inr t' \<and> rebuilt s (fst t')"
    if "i \<in> set [0..<length (terrain s)]" "rebuilt s (fst t)" for i and t :: "terrain_state \<times> int"
  proof -
    obtain st off where t: "t = (st, off)" by (cases t)
    have st: "rebuilt s st" using that(2) t by simp
    have dims: "terrain_width st = terrain_width s" "terrain_height st = terrain_height s"
      using st by (rule rebuilt_fields)+
    have "\<exists>st'. for_each (py_range (terrain_width st))
                  (\<lambda>j. for_each (py_range (terrain_height st))
                     (\<lambda>k. place_tile im i off j k)) st = Inr st' \<and> rebuilt s st'"
    proof (rule for_each_ok [where I = "rebuilt s", OF st])
      fix j u assume j: "j \<in> set (py_range (terrain_width st))" and u: "rebuilt s u"
      show "\<exists>u'. for_each (py_range (terrain_height st)) (\<lambda>k. place_tile im i off j k) u = Inr u' \<and> rebuilt s u'"
      proof (rule for_each_ok [where I = "rebuilt s", OF u])
        fix k v assume "k \<in> set (py_range (terrain_height st))" and "rebuilt s v"
        then show "\<exists>v'. place_tile im i off j k v = Inr v' \<and> rebuilt s v'"
          using cell [of v i j k off] j that(1) by (simp add: py_range_def dims)
      qed
    qed
    then show ?thesis by (auto simp: t)
  qed
  have "\<exists>t'. for_each [0..<length (terrain s)] ?outer (?s0, 0::int) = Inr t' \<and> rebuilt s (fst t')"
  proof (rule for_each_ok [where I = "\<lambda>t. rebuilt s (fst t)"])
    show "rebuilt s (fst (?s0, 0::int))" using start by simp
  next
    fix i and t :: "terrain_state \<times> int"
    assume "i \<in> set [0..<length (terrain s)]" and "rebuilt s (fst t)"
    then show "\<exists>t'. ?outer i t = Inr t' \<and> rebuilt s (fst t')" by (rule step)
  qed
  then obtain t' where "for_each [0..<length (terrain s)] ?outer (?s0, 0) = Inr t'"
    by blast
  then show ?thesis by (cases t') (simp add: generate_tiles_def)
qed

section \<open>The fallback returns a most probable type\<close>

lemma most_probable_ok:
  assumes "distinct (map fst probs)" and "''1'' \<in> fst ` set probs"
  shows "most_probable probs = Inr (fold (scan_step probs) probs ''1'')"
  unfolding most_probable_def using scan_loop [OF assms(1) subset_refl assms(2)] .

lemma most_probable_empty: "most_probable [] = Inr ''1''"
  by (simp add: most_probable_def)

lemma fallback_choice:
  assumes "distinct (map fst probs)" and "''1'' \<in> fst ` set probs"
  shows "\<exists>m. most_probable probs = Inr m \<and> m \<in> fst ` set probs
           \<and> (\<forall>(k, v) \<in> set probs. v \<le> weight probs m)
           \<and> (if \<forall>(k, v) \<in> set probs. v \<le> weight probs ''1'' then m = ''1''
               else first_maximum probs = Some m)"
proof -
  let ?m = "fold (scan_step probs) probs ''1''"
  have w: "\<And>k v. (k, v) \<in> set probs \<Longrightarrow> weight probs k = v"
    using assms(1) by (rule weight_member)
  from assms(2) obtain w1 where one: "(''1'', w1) \<in> set probs" by auto
  from scan_result [of probs probs "''1''", OF w]
  have "?m \<in> fst ` set probs \<and> (\<forall>(k, v) \<in> set probs. v \<le> weight probs ?m)
           \<and> (if \<forall>(k, v) \<in> set probs. v \<le> weight probs ''1'' then ?m = ''1''
               else first_maximum probs = Some ?m)"
  proof
    assume a: "?m = ''1'' \<and> (\<forall>(k, v) \<in> set probs. v \<le> weight probs ''1'')"
    then show ?thesis using assms(2) by simp
  next
    assume "\<exists>pre post m. ?m = m \<and> probs = pre @ (m, weight probs m) # post
             \<and> (\<forall>(k, v) \<in> set pre. v < weight probs m)
             \<and> (\<forall>(k, v) \<in> set post. v \<le> weight probs m)
             \<and> weight probs ''1'' < weight probs m"
    then obtain pre post where b: "probs = pre @ (?m, weight probs ?m) # post"
      "\<forall>(k, v) \<in> set pre. v < weight probs ?m" "\<forall>(k, v) \<in> set post. v \<le> weight probs ?m"
      "weight probs ''1'' < weight probs ?m" by blast
    have mem: "(?m, weight probs ?m) \<in> set probs" by (subst b(1)) simp
    have all: "\<forall>(k, v) \<in> set probs. v \<le> weight probs ?m"
    proof (clarify)
      fix k v assume "(k, v) \<in> set probs"
      then have "(k, v) \<in> set pre \<or> (k, v) = (?m, weight probs ?m) \<or> (k, v) \<in> set post"
        by (subst (asm) b(1)) auto
      then show "v \<le> weight probs ?m" using b(2,3) by fastforce
    qed
    have notone: "\<not> (\<forall>(k, v) \<in> set probs. v \<le> weight probs ''1'')"
      using mem b(4) by fastforce
    have "find (\<lambda>(k, v). \<forall>(k', v') \<in> set probs. v' \<le> v) (pre @ (?m, weight probs ?m) # post)
          = Some (?m, weight probs ?m)"
    proof (rule find_first)
      show "\<forall>y \<in> set pre. \<not> (case y of (k, v) \<Rightarrow> \<forall>(k', v') \<in> set probs. v' \<le> v)"
      proof
        fix y assume y: "y \<in> set pre"
        obtain k v where kv: "y = (k, v)" by (cases y)
        with y b(2) have "v < weight probs ?m" by blast
        with mem show "\<not> (case y of (k, v) \<Rightarrow> \<forall>(k', v') \<in> set probs. v' \<le> v)"
          unfolding kv by fastforce
      qed
      show "case (?m, weight probs ?m) of (k, v) \<Rightarrow> \<forall>(k', v') \<in> set probs. v' \<le> v"
        using all by simp
    qed
    then have "first_maximum probs = Some ?m"
      unfolding first_maximum_def using b(1) by simp
    moreover have "?m \<in> fst ` set probs" using mem by (rule rev_image_eqI) simp
    ultimately show ?thesis using all notone by (simp only: if_not_P) simp
  qed
  then show ?thesis using most_probable_ok [OF assms] by simp
qed

section \<open>Properties of base layer generation\<close>

lemma base_fill:
  assumes ok: "\<And>p. \<exists>t. base_cell probs acc (rand p) = Inr t"
  shows "for_each [0..<w] (\<lambda>i. for_each [0..<h]
           (\<lambda>j layer.
              and_then (getitem \<lparr>shape = (w, h), item = rand\<rparr> (i, j)) (\<lambda>number.
              and_then (base_cell probs acc number) (\<lambda>tt. setitem layer (i, j) tt))))
           (np_full (w, h) py_None)
         = Inr \<lparr>shape = (w, h),
                item = (\<lambda>p. if fst p < w \<and> snd p < h then projr (base_cell probs acc (rand p)) else py_None)\<rparr>"
proof -
  let ?f = "\<lambda>p. projr (base_cell probs acc (rand p))"
  let ?cs = "List.product [0..<w] [0..<h]"
  let ?body = "\<lambda>(i, j) layer.
              and_then (getitem \<lparr>shape = (w, h), item = rand\<rparr> (i, j)) (\<lambda>number.
              and_then (base_cell probs acc number) (\<lambda>tt. setitem layer (i, j) tt))"
  have body: "?body p layer = setitem layer p (?f p)" if "p \<in> set ?cs" for p layer
  proof -
    obtain i j where p: "p = (i, j)" by (cases p)
    from that p have "i < w" "j < h" by auto
    then have g: "getitem \<lparr>shape = (w, h), item = rand\<rparr> (i, j) = Inr (rand (i, j))"
      by (simp add: getitem_def in_bounds_def)
    from ok obtain t where t: "base_cell probs acc (rand (i, j)) = Inr t" by blast
    show ?thesis by (simp add: p g t)
  qed
  have "for_each ?cs ?body (np_full (w, h) py_None)
        = for_each ?cs (\<lambda>p b. setitem b p (?f p)) (np_full (w, h) py_None)"
    by (rule for_each_cong_set) (rule body)
  also have "\<dots> = Inr ((np_full (w, h) py_None)\<lparr>item := (\<lambda>p. if p \<in> set ?cs then ?f p
                       else item (np_full (w, h) py_None) p)\<rparr>)"
    by (rule fill_loop) (auto simp: in_bounds_def np_full_def)
  also have "(np_full (w, h) py_None)\<lparr>item := (\<lambda>p. if p \<in> set ?cs then ?f p
                       else item (np_full (w, h) py_None) p)\<rparr>
     = \<lparr>shape = (w, h), item = (\<lambda>p. if fst p < w \<and> snd p < h then ?f p else py_None)\<rparr>"
    by (auto simp: np_full_def fun_eq_iff)
  finally show ?thesis by (subst for_each_product)
qed

lemma generate_base_layer_eq:
  assumes "0 \<le> terrain_width s" and "0 \<le> terrain_height s"
    and ok: "\<And>p. \<exists>t. base_cell probs (accumulate_probabilities fadd probs) (rand p) = Inr t"
  shows "generate_base_layer s probs images fadd rand
         = generate_tiles (s\<lparr>base_layer := sampled_layer s probs fadd rand,
                              terrain := [sampled_layer s probs fadd rand]\<rparr>) images"
proof -
  have e: "np_empty (terrain_width s, terrain_height s)
           = Inr (np_full (nat (terrain_width s), nat (terrain_height s)) py_None)"
    using assms(1,2) by (simp add: np_empty_def)
  show ?thesis
    unfolding generate_base_layer_def Let_def generate_seed_def py_range_def
    using assms(1,2) by (simp add: e base_fill [OF ok] sampled_layer_def)
qed

lemma base_cell_key:
  assumes "distinct (map fst probs)" and "''1'' \<in> fst ` set probs"
  shows "\<exists>t. base_cell probs (accumulate_probabilities fadd probs) number = Inr t \<and> t \<in> fst ` set probs"
proof (cases "assign_tile number (accumulate_probabilities fadd probs)")
  case None
  from fallback_choice [OF assms] obtain m where "most_probable probs = Inr m" "m \<in> fst ` set probs"
    by blast
  with None show ?thesis by (simp add: base_cell_def)
next
  case (Some k)
  from assign_tile_Some [OF Some] have "k \<in> fst ` set probs" by (simp only: accumulate_keys)
  with Some show ?thesis by (simp add: base_cell_def)
qed

lemma past_last_boundary:
  assumes "never_decreases fadd" and "\<forall>(k, v) \<in> set probs. 0 \<le> v"
    and "last_boundary fadd probs \<le> number"
  shows "assign_tile number (accumulate_probabilities fadd probs) = None"
proof -
  have "\<not> number < c" if "(k, c) \<in> set (accumulate_probabilities fadd probs)" for k c
    using accumulate_bound [OF assms(1,2)] that assms(3) by fastforce
  then show ?thesis unfolding assign_tile_None by blast
qed

lemma no_boundary_above_zero:
  assumes "fadd 0 0 = 0" and "\<forall>(k, v) \<in> set probs. v = 0" and "0 \<le> number"
  shows "assign_tile number (accumulate_probabilities fadd probs) = None"
proof -
  have "\<not> number < c" if "(k, c) \<in> set (accumulate_probabilities fadd probs)" for k c
    using accumulate_zero [where fadd = fadd, OF assms(1,2)] that assms(3) by fastforce
  then show ?thesis unfolding assign_tile_None by blast
qed

lemma sampled_layer_cell:
  assumes "i < nat (terrain_width s)" and "j < nat (terrain_height s)"
  shows "getitem (sampled_layer s probs fadd rand) (i, j)
         = Inr (projr (base_cell probs (accumulate_probabilities fadd probs) (rand (i, j))))"
  using assms by (simp add: sampled_layer_def getitem_def in_bounds_def)

lemma generate_base_layer_result:
  assumes "0 \<le> terrain_width s" and "0 \<le> terrain_height s"
    and ok: "\<And>p. \<exists>t. base_cell probs (accumulate_probabilities fadd probs) (rand p) = Inr t
               \<and> t \<in> fst ` set images"
  shows "\<exists>s'. generate_base_layer s probs images fadd rand = Inr s'
           \<and> base_layer s' = sampled_layer s probs fadd rand
           \<and> terrain s' = [sampled_layer s probs fadd rand]"
proof -
  let ?L = "sampled_layer s probs fadd rand"
  let ?s1 = "s\<lparr>base_layer := ?L, terrain := [?L]\<rparr>"
  have ok': "\<And>p. \<exists>t. base_cell probs (accumulate_probabilities fadd probs) (rand p) = Inr t"
    using ok by blast
  have eq: "generate_base_layer s probs images fadd rand = generate_tiles ?s1 images"
    using assms(1,2) ok' by (rule generate_base_layer_eq)
  have "drawable ?s1 images"
    unfolding drawable_def
  proof (intro ballI allI impI)
    fix layer j k
    assume l: "layer \<in> set (terrain ?s1)" and j: "j < nat (terrain_width ?s1)"
      and k: "k < nat (terrain_height ?s1)"
    from l have layer: "layer = ?L" by simp
    from ok obtain t where t: "base_cell probs (accumulate_probabilities fadd probs) (rand (j, k)) = Inr t"
      "t \<in> fst ` set images" by blast
    have "item ?L (j, k) = t" using j k t(1) by (simp add: sampled_layer_def)
    moreover have "in_bounds ?L (j, k)" using j k by (simp add: sampled_layer_def in_bounds_def)
    ultimately show "in_bounds layer (j, k) \<and> (item layer (j, k) = ''0'' \<or> item layer (j, k) \<in> fst ` set images)"
      using t(2) layer by simp
  qed
  from generate_tiles_ok [OF this] obtain s' where s': "generate_tiles ?s1 images = Inr s'" ..
  from generate_tiles_rebuilt [OF s'] have "base_layer s' = base_layer ?s1" "terrain s' = terrain ?s1"
    by (rule rebuilt_fields)+
  with s' eq show ?thesis by simp
qed

text \<open>
  Claim C1, as amended. For every mapping with distinct keys that contains the
  key \<^verbatim>\<open>"1"\<close>, non-negative weights and an image for every key, base layer
  generation succeeds, and every cell whose draw is at or past the last cumulative
  boundary (the running sum after the last key, as the float additions of the
  code compute it) gets the type \<open>m\<close> the fallback scan returns.
  That type is a key of highest raw weight: it is \<^verbatim>\<open>"1"\<close> when \<^verbatim>\<open>"1"\<close>
  has the highest weight, and otherwise the first key of highest weight in
  iteration order.
\<close>

theorem fallback_assigns_most_probable:
  assumes "distinct (map fst probs)" and "''1'' \<in> fst ` set probs"
    and "\<forall>(k, v) \<in> set probs. 0 \<le> v"
    and "fst ` set probs \<subseteq> fst ` set images"
    and "never_decreases fadd"
  shows "\<exists>s' m. generate_base_layer s probs images fadd rand = Inr s'
           \<and> most_probable probs = Inr m \<and> m \<in> fst ` set probs
           \<and> (\<forall>(k, v) \<in> set probs. v \<le> weight probs m)
           \<and> (if \<forall>(k, v) \<in> set probs. v \<le> weight probs ''1'' then m = ''1''
               else first_maximum probs = Some m)
           \<and> (\<forall>i < nat (terrain_width s). \<forall>j < nat (terrain_height s).
                 last_boundary fadd probs \<le> rand (i, j)
                 \<longrightarrow> getitem (base_layer s') (i, j) = Inr m)"
proof -
  from fallback_choice [OF assms(1,2)] obtain m where m: "most_probable probs = Inr m"
    "m \<in> fst ` set probs" "\<forall>(k, v) \<in> set probs. v \<le> weight probs m"
    "if \<forall>(k, v) \<in> set probs. v \<le> weight probs ''1'' then m = ''1''
     else first_maximum probs = Some m" by blast
  show ?thesis
  proof (cases "terrain_height s < 0 \<or> terrain_width s < 0")
    case True
    then have "generate_base_layer s probs images fadd rand = Inr s"
      by (simp add: generate_base_layer_def)
    moreover from True have "nat (terrain_width s) = 0 \<or> nat (terrain_height s) = 0" by auto
    then have "\<forall>i < nat (terrain_width s). \<forall>j < nat (terrain_height s).
                 last_boundary fadd probs \<le> rand (i, j)
                 \<longrightarrow> getitem (base_layer s) (i, j) = Inr m" by auto
    ultimately show ?thesis using m by blast
  next
    case False
    then have dims: "0 \<le> terrain_width s" "0 \<le> terrain_height s" by auto
    have ok: "\<exists>t. base_cell probs (accumulate_probabilities fadd probs) (rand p) = Inr t
               \<and> t \<in> fst ` set images" for p
      using base_cell_key [OF assms(1,2), where number = "rand p" and fadd = fadd] assms(4) by blast
    from generate_base_layer_result [where rand = rand and fadd = fadd, OF dims ok] obtain s' where
      s': "generate_base_layer s probs images fadd rand = Inr s'"
      "base_layer s' = sampled_layer s probs fadd rand" by blast
    have "getitem (base_layer s') (i, j) = Inr m"
      if "i < nat (terrain_width s)" "j < nat (terrain_height s)"
        "last_boundary fadd probs \<le> rand (i, j)" for i j
    proof -
      have "assign_tile (rand (i, j)) (accumulate_probabilities fadd probs) = None"
        using assms(5,3) that(3) by (rule past_last_boundary)
      then have "base_cell probs (accumulate_probabilities fadd probs) (rand (i, j)) = Inr m"
        by (simp add: base_cell_def m(1))
      then show ?thesis using sampled_layer_cell [OF that(1,2)] s'(2) by simp
    qed
    then show ?thesis using s'(1) m by blast
  qed
qed

lemmas eval_base = generate_base_layer_def init_terrain_def generate_seed_def
  accumulate_probabilities_def np_empty_def np_full_def py_range_def base_cell_def
  most_probable_def dict_get_def getitem_def setitem_def in_bounds_def
  generate_tiles_def place_tile_def list_get_def Let_def constant_draws_def cell_after_def

text \<open>
  The weights 0.25 and 0.5 and their sums are floats, so the additions are exact;
  the draw 0.875 is past the last boundary 0.75.
\<close>

theorem fallback_assigns_most_probable_witness:
  "distinct (map fst [(''1'', 1 / 4 :: real), (''2'', 1 / 2)])
   \<and> ''1'' \<in> fst ` set [(''1'', 1 / 4 :: real), (''2'', 1 / 2)]
   \<and> list_all (\<lambda>(k, v). 0 \<le> v) [(''1'', 1 / 4 :: real), (''2'', 1 / 2)]
   \<and> fst ` set [(''1'', 1 / 4 :: real), (''2'', 1 / 2)] \<subseteq> fst ` set [(''1'', ''a''), (''2'', ''b'')]
   \<and> never_decreases (+)
   \<and> (\<exists>s' m. generate_base_layer (projr (init_terrain 1 1 32 16 7)) [(''1'', 1 / 4), (''2'', 1 / 2)]
                  [(''1'', ''a''), (''2'', ''b'')] (+) (constant_draws (7 / 8)) = Inr s'
           \<and> most_probable [(''1'', 1 / 4), (''2'', 1 / 2)] = Inr m
           \<and> m \<in> fst ` set [(''1'', 1 / 4 :: real), (''2'', 1 / 2)]
           \<and> (\<forall>(k, v) \<in> set [(''1'', 1 / 4), (''2'', 1 / 2)].
                  v \<le> weight [(''1'', 1 / 4), (''2'', 1 / 2)] m)
           \<and> (if \<forall>(k, v) \<in> set [(''1'', 1 / 4), (''2'', 1 / 2)].
                    v \<le> weight [(''1'', 1 / 4), (''2'', 1 / 2)] ''1'' then m = ''1''
               else first_maximum [(''1'', 1 / 4), (''2'', 1 / 2)] = Some m)
           \<and> (\<forall>i < nat (terrain_width (projr (init_terrain 1 1 32 16 7))).
               \<forall>j < nat (terrain_height (projr (init_terrain 1 1 32 16 7))).
                 last_boundary (+) [(''1'', 1 / 4 :: real), (''2'', 1 / 2)] \<le> constant_draws (7 / 8) (i, j)
                 \<longrightarrow> getitem (base_layer s') (i, j) = Inr m))"
proof -
  have h1: "distinct (map fst [(''1'', 1 / 4 :: real), (''2'', 1 / 2)])" by simp
  have h2: "''1'' \<in> fst ` set [(''1'', 1 / 4 :: real), (''2'', 1 / 2)]" by simp
  have h3: "\<forall>(k, v) \<in> set [(''1'', 1 / 4 :: real), (''2'', 1 / 2)]. 0 \<le> v" by simp
  have h4: "fst ` set [(''1'', 1 / 4 :: real), (''2'', 1 / 2)] \<subseteq> fst ` set [(''1'', ''a''), (''2'', ''b'')]"
    by simp
  have h5: "never_decreases ((+) :: real \<Rightarrow> real \<Rightarrow> real)" by (simp add: never_decreases_def)
  have h3': "list_all (\<lambda>(k, v). 0 \<le> v) [(''1'', 1 / 4 :: real), (''2'', 1 / 2)]" by simp
  from fallback_assigns_most_probable [OF h1 h2 h3 h4 h5,
      where s = "projr (init_terrain 1 1 32 16 7)" and rand = "constant_draws (7 / 8)"]
  show ?thesis using h1 h2 h3' h4 h5 by (intro conjI) assumption+
qed

text \<open>
  Claim C1 as stated fails twice. With \<^verbatim>\<open>{"2": 0.25, "1": 0.25}\<close> and a draw
  of 0.875 the cell gets \<^verbatim>\<open>"1"\<close>, although the first maximum in iteration
  order is \<^verbatim>\<open>"2"\<close>; and with \<^verbatim>\<open>{"2": 0.5}\<close>, which has no key
  \<^verbatim>\<open>"1"\<close>, the fallback raises KeyError. All sums involved are floats.
\<close>

theorem fallback_first_maximum_counterexample:
  "cell_after
     (generate_base_layer (projr (init_terrain 1 1 32 16 7)) [(''2'', 1 / 4), (''1'', 1 / 4)]
        [(''1'', ''a''), (''2'', ''b'')] (+) (constant_draws (7 / 8))) (0, 0) = Inr ''1''
   \<and> first_maximum [(''2'', 1 / 4), (''1'', 1 / 4)] = Some ''2''
   \<and> generate_base_layer (projr (init_terrain 1 1 32 16 7)) [(''2'', 1 / 2)]
        [(''1'', ''a''), (''2'', ''b'')] (+) (constant_draws (7 / 8)) = Inl KeyError"
  by (simp add: eval_base first_maximum_def)

section \<open>Degenerate mappings\<close>

lemma dict_get_zero:
  assumes "\<forall>(k, v) \<in> set d. v = (0::real)" and "k \<in> fst ` set d"
  shows "dict_get d k = Inr 0"
proof -
  from dict_get_ok [OF assms(2)] obtain v where v: "dict_get d k = Inr v" ..
  then have "map_of d k = Some v" by (simp add: dict_get_def split: option.splits)
  then have "(k, v) \<in> set d" by (rule map_of_SomeD)
  with assms(1) have "v = 0" by blast
  with v show ?thesis by simp
qed

lemma zero_scan:
  assumes "\<forall>(k, v) \<in> set d. v = (0::real)" and "most \<in> fst ` set d" and "set items \<subseteq> set d"
  shows "for_each items
           (\<lambda>(key, value) most.
              and_then (dict_get d key) (\<lambda>a.
              and_then (dict_get d most) (\<lambda>b. Inr (if a > b then key else most))))
           most = Inr most"
  using assms(3)
proof (induction items)
  case Nil
  then show ?case by simp
next
  case (Cons kv items)
  obtain k v where kv: "kv = (k, v)" by (cases kv)
  with Cons.prems have "k \<in> fst ` set d" by (auto intro: rev_image_eqI)
  then have "dict_get d k = Inr 0" using assms(1) by (simp add: dict_get_zero)
  moreover have "dict_get d most = Inr 0" using assms(1,2) by (rule dict_get_zero)
  ultimately show ?case using Cons by (simp add: kv)
qed

lemma most_probable_zero:
  assumes "\<forall>(k, v) \<in> set probs. v = 0" and "probs = [] \<or> ''1'' \<in> fst ` set probs"
  shows "most_probable probs = Inr ''1''"
proof (cases "probs = []")
  case True
  then show ?thesis by (simp add: most_probable_empty)
next
  case False
  with assms(2) have "''1'' \<in> fst ` set probs" by simp
  then show ?thesis unfolding most_probable_def using assms(1) by (intro zero_scan) auto
qed

text \<open>
  Claim C4, as amended. For a degenerate mapping (no key, or every weight zero)
  that is empty or contains the key \<^verbatim>\<open>"1"\<close>, with an image for \<^verbatim>\<open>"1"\<close>,
  non-negative draws and non-negative dimensions, base layer generation raises
  nothing: it returns a state whose single grid has the configured shape and holds
  \<^verbatim>\<open>"1"\<close> in every cell. Of the addition of floats it uses only that
  \<^verbatim>\<open>0.0 + 0.0\<close> is \<^verbatim>\<open>0.0\<close>.
\<close>

theorem degenerate_mapping_fills_with_1:
  assumes "\<forall>(k, v) \<in> set probs. v = 0" and "probs = [] \<or> ''1'' \<in> fst ` set probs"
    and "''1'' \<in> fst ` set images" and "\<forall>p. 0 \<le> rand p"
    and "0 \<le> terrain_width s" and "0 \<le> terrain_height s"
    and "fadd 0 0 = 0"
  shows "\<exists>s'. generate_base_layer s probs images fadd rand = Inr s'
           \<and> terrain s' = [base_layer s']
           \<and> shape (base_layer s') = (nat (terrain_width s), nat (terrain_height s))
           \<and> (\<forall>i < nat (terrain_width s). \<forall>j < nat (terrain_height s).
                 getitem (base_layer s') (i, j) = Inr ''1'')"
proof -
  have cell: "base_cell probs (accumulate_probabilities fadd probs) (rand p) = Inr ''1''" for p
  proof -
    have "0 \<le> rand p" using assms(4) by (rule spec)
    with assms(7,1) have "assign_tile (rand p) (accumulate_probabilities fadd probs) = None"
      by (rule no_boundary_above_zero)
    then show ?thesis by (simp add: base_cell_def most_probable_zero [OF assms(1,2)])
  qed
  have ok: "\<exists>t. base_cell probs (accumulate_probabilities fadd probs) (rand p) = Inr t
               \<and> t \<in> fst ` set images" for p
    using cell [of p] assms(3) by simp
  from generate_base_layer_result [where rand = rand and fadd = fadd, OF assms(5,6) ok] obtain s' where
    s': "generate_base_layer s probs images fadd rand = Inr s'"
    "base_layer s' = sampled_layer s probs fadd rand" "terrain s' = [sampled_layer s probs fadd rand]"
    by blast
  have "getitem (base_layer s') (i, j) = Inr ''1''"
    if "i < nat (terrain_width s)" "j < nat (terrain_height s)" for i j
    using sampled_layer_cell [OF that] s'(2) cell by simp
  moreover have "shape (base_layer s') = (nat (terrain_width s), nat (terrain_height s))"
    using s'(2) by (simp add: sampled_layer_def)
  ultimately show ?thesis using s'(1,2,3) by auto
qed

theorem degenerate_mapping_fills_with_1_witness:
  "list_all (\<lambda>(k, v). v = 0) [(''1'', 0 :: real), (''2'', 0)]
   \<and> ([(''1'', 0 :: real), (''2'', 0)] = [] \<or> ''1'' \<in> fst ` set [(''1'', 0 :: real), (''2'', 0)])
   \<and> ''1'' \<in> fst ` set [(''1'', ''a''), (''2'', ''b'')]
   \<and> (\<forall>p. 0 \<le> constant_draws (1 / 2) p)
   \<and> 0 \<le> terrain_width (projr (init_terrain 2 2 32 16 7))
   \<and> 0 \<le> terrain_height (projr (init_terrain 2 2 32 16 7))
   \<and> (0::real) + 0 = 0
   \<and> (\<exists>s'. generate_base_layer (projr (init_terrain 2 2 32 16 7)) [(''1'', 0), (''2'', 0)]
               [(''1'', ''a''), (''2'', ''b'')] (+) (constant_draws (1 / 2)) = Inr s'
           \<and> terrain s' = [base_layer s']
           \<and> shape (base_layer s') = (nat (terrain_width (projr (init_terrain 2 2 32 16 7))),
                                       nat (terrain_height (projr (init_terrain 2 2 32 16 7))))
           \<and> (\<forall>i < nat (terrain_width (projr (init_terrain 2 2 32 16 7))).
               \<forall>j < nat (terrain_height (projr (init_terrain 2 2 32 16 7))).
                 getitem (base_layer s') (i, j) = Inr ''1''))"
proof -
  have h1: "\<forall>(k, v) \<in> set [(''1'', 0 :: real), (''2'', 0)]. v = 0" by simp
  have h2: "[(''1'', 0 :: real), (''2'', 0)] = [] \<or> ''1'' \<in> fst ` set [(''1'', 0 :: real), (''2'', 0)]"
    by simp
  have h3: "''1'' \<in> fst ` set [(''1'', ''a''), (''2'', ''b'')]" by simp
  have h4: "\<forall>p. 0 \<le> constant_draws (1 / 2) p" by (simp add: constant_draws_def)
  have h5: "0 \<le> terrain_width (projr (init_terrain 2 2 32 16 7))" by (simp add: init_terrain_def)
  have h6: "0 \<le> terrain_height (projr (init_terrain 2 2 32 16 7))" by (simp add: init_terrain_def)
  have h7: "(0::real) + 0 = 0" by simp
  have h1': "list_all (\<lambda>(k, v). v = 0) [(''1'', 0 :: real), (''2'', 0)]" by simp
  from degenerate_mapping_fills_with_1 [where fadd = "(+)", OF h1 h2 h3 h4 h5 h6 h7]
  show ?thesis using h1' h2 h3 h4 h5 h6 h7 by (intro conjI) assumption+
qed

text \<open>
  Claim C4 as stated fails: with the empty mapping the operation raises no error
  and the cell holds \<^verbatim>\<open>"1"\<close>, and with the all-zero mapping
  \<^verbatim>\<open>{"2": 0}\<close> it raises KeyError.
\<close>

theorem degenerate_mapping_counterexample:
  "cell_after
     (generate_base_layer (projr (init_terrain 1 1 32 16 7)) [] [(''1'', ''a''), (''2'', ''b'')]
        (+) (constant_draws (1 / 2))) (0, 0) = Inr ''1''
   \<and> generate_base_layer (projr (init_terrain 1 1 32 16 7)) [(''2'', 0)] [(''1'', ''a''), (''2'', ''b'')]
        (+) (constant_draws (1 / 2)) = Inl KeyError"
  by (simp add: eval_base)

section \<open>Non-positive dimensions\<close>

text \<open>
  Claim C5, as amended. When \<open>terrain_width\<close> or \<open>terrain_height\<close> is
  negative, \<^verbatim>\<open>generate_base_layer\<close> returns the state it was given: the base
  layer, the terrain, the tiles, the selection and everything else are unchanged.
\<close>

theorem generate_base_layer_negative_noop:
  "terrain_width s < 0 \<or> terrain_height s < 0
   \<Longrightarrow> generate_base_layer s probs images fadd rand = Inr s"
  by (auto simp: generate_base_layer_def)

text \<open>
  In \<open>negative_width_example\<close> the width is -1 and the state holds one tile
  and a 1 x 1 base layer; the operation returns it as it is.
\<close>

theorem generate_base_layer_negative_noop_witness:
  "(terrain_width negative_width_example < 0 \<or> terrain_height negative_width_example < 0)
   \<and> tiles negative_width_example = [0]
   \<and> map shape (terrain negative_width_example) = [(1, 1)]
   \<and> getitem (base_layer negative_width_example) (0, 0) = Inr ''1''
   \<and> generate_base_layer negative_width_example [(''1'', 1)] [(''1'', ''a'')]
        (+) (constant_draws (1 / 2)) = Inr negative_width_example"
proof -
  have h: "terrain_width negative_width_example < 0 \<or> terrain_height negative_width_example < 0"
    by (simp add: negative_width_example_def update_terrain_info_def)
  have t: "tiles negative_width_example = [0]"
    by (simp add: negative_width_example_def update_terrain_info_def eval_base)
  have g: "map shape (terrain negative_width_example) = [(1, 1)]"
    by (simp add: negative_width_example_def update_terrain_info_def eval_base)
  have c: "getitem (base_layer negative_width_example) (0, 0) = Inr ''1''"
    by (simp add: negative_width_example_def update_terrain_info_def eval_base)
  from generate_base_layer_negative_noop [OF h] h t g c show ?thesis by (intro conjI)
qed

text \<open>
  Claim C5 as stated fails at width 0: the guard tests \<open>< 0\<close>, so the
  operation runs, replaces the one-cell base layer by an empty grid and clears the
  tiles.
\<close>

theorem generate_base_layer_zero_width_counterexample:
  "terrain_width zero_width_example = 0
   \<and> tiles zero_width_example = [0]
   \<and> map shape (terrain zero_width_example) = [(1, 1)]
   \<and> map_sum id tiles
        (generate_base_layer zero_width_example [(''1'', 1)] [(''1'', ''a'')] (+) (constant_draws (1 / 2)))
      = Inr []
   \<and> map_sum id (map shape \<circ> terrain)
        (generate_base_layer zero_width_example [(''1'', 1)] [(''1'', ''a'')] (+) (constant_draws (1 / 2)))
      = Inr [(0, 1)]
   \<and> generate_base_layer zero_width_example [(''1'', 1)] [(''1'', ''a'')] (+) (constant_draws (1 / 2))
      \<noteq> Inr zero_width_example"
  by (simp add: zero_width_example_def update_terrain_info_def eval_base)

section \<open>The heightmap is zero off the marker\<close>

lemma setitem_eq_Inr:
  "setitem a p v = Inr b \<longleftrightarrow> in_bounds a p \<and> b = a\<lparr>item := (item a)(p := v)\<rparr>"
  by (auto simp: setitem_def)

lemma getitem_eq_Inr:
  "getitem a p = Inr v \<longleftrightarrow> in_bounds a p \<and> v = item a p"
  by (auto simp: getitem_def)

lemma seed_cell_keeps:
  assumes "seed_cell grid symbol elev i j hm = Inr hm'" and "off_marker_zero grid symbol hm"
  shows "off_marker_zero grid symbol hm'"
proof -
  from assms(1) obtain tt where tt: "getitem grid (i, j) = Inr tt"
    and r: "(if tt = symbol then setitem hm (i, j) (real_of_int elev) else Inr hm) = Inr hm'"
    unfolding seed_cell_def by (subst (asm) and_then_eq_Inr) blast
  show ?thesis
  proof (cases "tt = symbol")
    case True
    with r have "hm' = hm\<lparr>item := (item hm)((i, j) := real_of_int elev)\<rparr>"
      by (simp add: setitem_eq_Inr)
    moreover from tt True have "item grid (i, j) = symbol" by (simp add: getitem_eq_Inr)
    ultimately show ?thesis using assms(2) by (simp add: off_marker_zero_def)
  next
    case False
    with r assms(2) show ?thesis by simp
  qed
qed

lemma diffuse_cell_keeps:
  assumes "diffuse_cell i j hm = Inr hm'" and "off_marker_zero grid symbol hm"
  shows "off_marker_zero grid symbol hm'"
proof -
  from assms(1) obtain v where v: "getitem hm (i, j) = Inr v"
    and r: "(if v = 0 then Inr hm
       else and_then (get_neighbor_tiles hm (i, j)) (\<lambda>neighbors.
              let values = neighbors @ [v]
              in setitem hm (i, j) (sum_list values / real (length values)))) = Inr hm'"
    unfolding diffuse_cell_def by (subst (asm) and_then_eq_Inr) blast
  show ?thesis
  proof (cases "v = 0")
    case True
    with r assms(2) show ?thesis by simp
  next
    case False
    with r obtain x where "setitem hm (i, j) x = Inr hm'"
      by (auto simp: and_then_eq_Inr Let_def)
    then have hm': "hm' = hm\<lparr>item := (item hm)((i, j) := x)\<rparr>" by (simp add: setitem_eq_Inr)
    from v False have "item hm (i, j) \<noteq> 0" by (simp add: getitem_eq_Inr)
    with assms(2) have "item grid (i, j) = symbol" by (simp add: off_marker_zero_def)
    with assms(2) show ?thesis by (simp add: off_marker_zero_def hm')
  qed
qed

lemma sweep_keeps:
  assumes "for_each xs (\<lambda>i. for_each ys (\<lambda>j. body i j)) hm = Inr hm'"
    and "I hm" and "\<And>i j a b. I a \<Longrightarrow> body i j a = Inr b \<Longrightarrow> I b"
  shows "I hm'"
proof (rule for_each_inv [OF assms(1), where I = I])
  show "I hm" by (rule assms(2))
next
  fix i a b assume a: "I a" and row: "for_each ys (\<lambda>j. body i j) a = Inr b"
  show "I b"
  proof (rule for_each_inv [OF row, where I = I])
    show "I a" by (rule a)
  next
    fix j c d assume "I c" and "body i j c = Inr d"
    then show "I d" by (rule assms(3))
  qed
qed

lemma generate_heightmap_off_marker:
  assumes "generate_heightmap grid symbol elev iterations = Inr hm"
  shows "off_marker_zero grid symbol hm"
proof -
  let ?w = "fst (shape grid)" and ?h = "snd (shape grid)"
  from assms obtain seeded diffused where
    seeded: "for_each [0..<?w] (\<lambda>i. for_each [0..<?h]
           (\<lambda>j. seed_cell grid symbol elev i j)) (np_zeros (?w, ?h)) = Inr seeded"
    and diffused: "for_each (py_range iterations)
                (\<lambda>_. for_each [0..<?w] (\<lambda>i. for_each [0..<?h] (\<lambda>j. diffuse_cell i j)))
                seeded = Inr diffused"
    and hm: "hm = np_trunc diffused"
    unfolding generate_heightmap_def Let_def
    by (auto simp: and_then_eq_Inr)
  have z: "off_marker_zero grid symbol (np_zeros (?w, ?h))"
    by (simp add: off_marker_zero_def np_zeros_def np_full_def)
  have s: "off_marker_zero grid symbol seeded"
    by (rule sweep_keeps [where I = "off_marker_zero grid symbol", OF seeded z]) (rule seed_cell_keeps)
  have d: "off_marker_zero grid symbol diffused"
  proof (rule for_each_inv [OF diffused, where I = "off_marker_zero grid symbol"])
    show "off_marker_zero grid symbol seeded" by (rule s)
  next
    fix n a b
    assume a: "off_marker_zero grid symbol a"
      and sw: "for_each [0..<?w] (\<lambda>i. for_each [0..<?h] (\<lambda>j. diffuse_cell i j)) a = Inr b"
    show "off_marker_zero grid symbol b"
      by (rule sweep_keeps [where I = "off_marker_zero grid symbol", OF sw a]) (rule diffuse_cell_keeps)
  qed
  have t: "item diffused p \<noteq> 0" if "item (np_trunc diffused) p \<noteq> 0" for p
  proof
    assume "item diffused p = 0"
    then have "item (np_trunc diffused) p = 0" by (simp add: np_trunc_def trunc_def)
    with that show False by simp
  qed
  have "shape (np_trunc diffused) = shape grid"
    using d by (simp add: off_marker_zero_def np_trunc_def)
  moreover have "\<forall>p. item (np_trunc diffused) p \<noteq> 0 \<longrightarrow> item grid p = symbol"
    using d t unfolding off_marker_zero_def by blast
  ultimately show ?thesis unfolding hm off_marker_zero_def by (rule conjI)
qed

text \<open>
  Claim C10. For every base layer, marker, elevation and iteration count, a
  heightmap that \<^verbatim>\<open>_generate_heightmap\<close> returns has the shape of the base
  layer and is 0 at every cell whose base-layer tile is not the marker: the
  diffusion only writes cells that are nonzero, and only marker cells are seeded.
\<close>

theorem heightmap_zero_off_marker:
  assumes "generate_heightmap grid symbol elev iterations = Inr hm"
    and "i < fst (shape grid)" and "j < snd (shape grid)"
    and "item grid (i, j) \<noteq> symbol"
  shows "shape hm = shape grid \<and> getitem hm (i, j) = Inr 0"
proof -
  from generate_heightmap_off_marker [OF assms(1)]
  have "shape hm = shape grid" and "item hm (i, j) = 0"
    using assms(4) by (auto simp: off_marker_zero_def)
  then show ?thesis using assms(2,3) by (simp add: getitem_def in_bounds_def)
qed

lemma upt2: "[0..<2] = [0, Suc 0]" "[0..<3] = [0, Suc 0, 2]"
  by (simp_all add: upt_rec)

lemmas eval_heightmap = generate_heightmap_def seed_cell_def diffuse_cell_def np_zeros_def
  np_full_def np_trunc_def trunc_def getitem_def setitem_def in_bounds_def py_range_def
  get_neighbor_tiles_def neighbor_positions_def Let_def marker_corner_grid_def upt2

theorem heightmap_zero_off_marker_witness:
  "(1::nat) < fst (shape marker_corner_grid) \<and> (1::nat) < snd (shape marker_corner_grid)
   \<and> item marker_corner_grid (1, 1) \<noteq> ''1''
   \<and> (\<exists>hm. generate_heightmap marker_corner_grid ''1'' 5 1 = Inr hm
          \<and> getitem hm (0, 0) = Inr 1
          \<and> shape hm = shape marker_corner_grid \<and> getitem hm (1, 1) = Inr 0)"
proof -
  have h2: "(1::nat) < fst (shape marker_corner_grid)" and h3: "(1::nat) < snd (shape marker_corner_grid)"
    and h4: "item marker_corner_grid (1, 1) \<noteq> ''1''"
    by (simp_all add: marker_corner_grid_def)
  have "\<exists>hm. generate_heightmap marker_corner_grid ''1'' 5 1 = Inr hm \<and> getitem hm (0, 0) = Inr 1"
    by (simp add: eval_heightmap)
  then obtain hm where h1: "generate_heightmap marker_corner_grid ''1'' 5 1 = Inr hm"
    and c: "getitem hm (0, 0) = Inr 1" by blast
  from heightmap_zero_off_marker [OF h1 h2 h3 h4] h1 c
  have "\<exists>hm. generate_heightmap marker_corner_grid ''1'' 5 1 = Inr hm
          \<and> getitem hm (0, 0) = Inr 1
          \<and> shape hm = shape marker_corner_grid \<and> getitem hm (1, 1) = Inr 0" by blast
  with h2 h3 h4 show ?thesis by (intro conjI)
qed

section \<open>Selection, deletion and the shapes of the layers\<close>

lemmas eval_more = eval_base hovering_only_def layer_cell_after_def update_pointed_tile_def
  update_selected_tiles_def set_selected_def update_terrain_info_def make_tile_def new_tile_def
  cart_to_iso_def generate_elevation_def generate_heightmap_def seed_cell_def diffuse_cell_def
  np_zeros_def np_trunc_def trunc_def np_max_def cells_def py_int_def elevation_layer_def
  delete_tiles_def delete_one_def

text \<open>
  Claim C8. The click without modifier appends the pointed tile without looking
  whether it is selected already: on a terrain with one tile, pointed at, two
  calls of \<^verbatim>\<open>update_selected_tiles(False, True)\<close> (the button held for two
  frames) leave the tile twice in \<open>selected_tiles\<close>.
\<close>

theorem selection_duplicate:
  "tiles one_tile_pointed = [0]
   \<and> pointed_tile one_tile_pointed = Some 0
   \<and> selected_tiles (update_selected_tiles one_tile_pointed False True) = [0]
   \<and> selected_tiles
        (update_selected_tiles (update_selected_tiles one_tile_pointed False True) False True)
      = [0, 0]"
  by (simp add: one_tile_pointed_def eval_more)

text \<open>
  Claim C2. \<^verbatim>\<open>generate_elevation\<close> sizes the new layers by
  \<open>terrain_width\<close> and \<open>terrain_height\<close>, not by the shape of the base
  layer: after \<^verbatim>\<open>update_terrain_info\<close> shrinks a 2 x 3 terrain to 2 x 2, the
  terrain holds a 2 x 3 grid and a 2 x 2 grid; after it grows it to 3 x 3, reading
  the heightmap raises IndexError.
\<close>

theorem elevation_layers_shape_mismatch:
  "map shape (terrain base_2x3) = [(2, 3)]
   \<and> map_sum id (map shape \<circ> terrain)
        (generate_elevation (update_terrain_info base_2x3 2 2 32 16 7 1 0) [(''1'', ''a'')])
      = Inr [(2, 3), (2, 2)]
   \<and> generate_elevation (update_terrain_info base_2x3 3 3 32 16 7 1 0) [(''1'', ''a'')]
      = Inl IndexError"
  by (simp add: base_2x3_def eval_more upt2)

text \<open>
  Claim C3. With two elevated tiles selected, the delete key removes the first
  and skips the second: removing from \<open>selected_tiles\<close> while iterating over it
  moves the second tile to the position already visited. Tile 9 stays selected,
  stays in \<open>tiles\<close>, and its cell of layer 1 still holds \<^verbatim>\<open>"1"\<close>.
\<close>

theorem delete_skips_second_selected:
  "tiles two_selected = [4, 5, 6, 7, 8, 9, 10, 11]
   \<and> selected_tiles two_selected = [8, 9]
   \<and> tile_elevation (heap two_selected 8) = 2
   \<and> tile_elevation (heap two_selected 9) = 2
   \<and> index (heap two_selected 9) = (0, 1)
   \<and> map_sum id selected_tiles (delete_tiles two_selected (KEYDOWN K_DELETE)) = Inr [9]
   \<and> map_sum id tiles (delete_tiles two_selected (KEYDOWN K_DELETE)) = Inr [4, 5, 6, 7, 9, 10, 11]
   \<and> layer_cell_after (delete_tiles two_selected (KEYDOWN K_DELETE)) 1 (0, 0) = Inr ''0''
   \<and> layer_cell_after (delete_tiles two_selected (KEYDOWN K_DELETE)) 1 (0, 1) = Inr ''1''"
  by (simp add: two_selected_def elevated_2x2_def eval_more upt2)

section \<open>Elevation layers\<close>




lemma level_grid_cong:
  "terrain_width st = terrain_width s \<Longrightarrow> terrain_height st = terrain_height s
   \<Longrightarrow> level_grid st hm symbol i layer = level_grid s hm symbol i layer"
  by (simp add: level_grid_def)
























end
